theory Spec2Isabelle
  imports Main
begin

section \<open>Text, bytes and the characters Python's \<open>re\<close> distinguishes\<close>

text \<open>
  A Python \<open>str\<close> is modelled as a \<open>string\<close>: one \<open>char\<close> per code point, for the code
  points below 256. \<open>bytes\<close> are \<open>char\<close> lists as well, one \<open>char\<close> per byte.
\<close>

type_synonym bytes = "char list"

definition code :: "char \<Rightarrow> nat" where
  "code c = of_char c"

text \<open>\<open>\s\<close> in a \<open>str\<close> pattern: the code points for which \<open>str.isspace\<close> holds.\<close>

definition is_space :: "char \<Rightarrow> bool" where
  "is_space c = ((9 \<le> code c \<and> code c \<le> 13) \<or> (28 \<le> code c \<and> code c \<le> 32)
                 \<or> code c = 133 \<or> code c = 160)"

definition is_b64_alphabet :: "char \<Rightarrow> bool" where
  "is_b64_alphabet c = ((97 \<le> code c \<and> code c \<le> 122) \<or> (65 \<le> code c \<and> code c \<le> 90)
                 \<or> (48 \<le> code c \<and> code c \<le> 57) \<or> c = CHR ''+'' \<or> c = CHR ''/''
                 \<or> c = CHR ''='')"

section \<open>A backtracking matcher for the patterns of the \<open>regex\<close> table\<close>

text \<open>
  Every pattern of the table is a sequence of literal characters, greedy \<open>\s*\<close> runs and one
  parenthesised, lazily quantified character class (group 1). \<open>Dot\<close> is \<open>.\<close> without
  \<open>re.S\<close> (anything but a line feed), \<open>Dot_all\<close> is \<open>.\<close> under \<open>re.S\<close>, and
  \<open>Base64_or_space\<close> is the set \<open>[a-zA-Z0-9+/=\s]\<close>.
\<close>

datatype cls = Space | Dot | Dot_all | Base64_or_space

fun in_cls :: "cls \<Rightarrow> char \<Rightarrow> bool" where
  "in_cls Space c = is_space c"
| "in_cls Dot c = (c \<noteq> CHR 0x0A)"
| "in_cls Dot_all c = True"
| "in_cls Base64_or_space c = (is_b64_alphabet c \<or> is_space c)"

datatype item = Lit char | Greedy_star cls | Group_lazy cls nat "nat option"

text \<open>
  \<open>rmatch p s\<close> matches the pattern at the start of \<open>s\<close> the way the backtracking engine
  does: a greedy star takes a character first and gives it back only when the rest fails; a
  lazy repetition \<open>{lo,hi}?\<close> tries the rest first once \<open>lo\<close> characters are taken. The
  result is group 1 and the text after the match.
\<close>

function rmatch :: "item list \<Rightarrow> string \<Rightarrow> (string \<times> string) option" where
  "rmatch [] s = Some ([], s)"
| "rmatch (Lit c # p) s =
     (case s of [] \<Rightarrow> None | x # xs \<Rightarrow> if x = c then rmatch p xs else None)"
| "rmatch (Greedy_star cl # p) s =
     (case s of
        [] \<Rightarrow> rmatch p []
      | x # xs \<Rightarrow>
          if in_cls cl x then
            (case rmatch (Greedy_star cl # p) xs of
               Some r \<Rightarrow> Some r
             | None \<Rightarrow> rmatch p (x # xs))
          else rmatch p (x # xs))"
| "rmatch (Group_lazy cl lo hi # p) s =
     (case (if lo = 0 then rmatch p s else None) of
        Some r \<Rightarrow> Some r
      | None \<Rightarrow>
          (case s of
             [] \<Rightarrow> None
           | x # xs \<Rightarrow>
               if in_cls cl x \<and> hi \<noteq> Some 0 then
                 map_option (\<lambda>(g, r). (x # g, r))
                   (rmatch (Group_lazy cl (lo - 1) (map_option (\<lambda>h. h - 1) hi) # p) xs)
               else None))"
  by pat_completeness auto
termination
  by (relation "measure (\<lambda>(p, s). length p + length s)") auto

declare rmatch.simps [simp del]

text \<open>\<open>pattern.search(s)\<close> followed by \<open>.group(1)\<close>: the leftmost match; \<open>None\<close> when there is none.\<close>

fun search :: "item list \<Rightarrow> string \<Rightarrow> string option" where
  "search p [] = map_option fst (rmatch p [])"
| "search p (x # xs) =
     (case rmatch p (x # xs) of Some (g, r) \<Rightarrow> Some g | None \<Rightarrow> search p xs)"

text \<open>
  \<open>pattern.findall(s)\<close> for a pattern with one group: group 1 of every match, scanning from
  left to right, each scan resuming where the last match ended (one character further after
  an empty match). The counter is the number of characters still covered by the last match.
\<close>

fun findall_from :: "item list \<Rightarrow> nat \<Rightarrow> string \<Rightarrow> string list" where
  "findall_from p k [] =
     (if k = 0 then (case rmatch p [] of Some (g, r) \<Rightarrow> [g] | None \<Rightarrow> []) else [])"
| "findall_from p k (x # xs) =
     (if 0 < k then findall_from p (k - 1) xs
      else (case rmatch p (x # xs) of
              None \<Rightarrow> findall_from p 0 xs
            | Some (g, r) \<Rightarrow> g # findall_from p (length xs - length r) xs))"

definition findall :: "item list \<Rightarrow> string \<Rightarrow> string list" where
  "findall p s = findall_from p 0 s"

section \<open>The \<open>regex\<close> table\<close>

definition tag_open :: "string \<Rightarrow> item list" where
  "tag_open name = Lit CHR ''<'' # Greedy_star Space # map Lit name @ [Greedy_star Space, Lit CHR ''>'']"

definition tag_close :: "string \<Rightarrow> item list" where
  "tag_close name =
     Lit CHR ''<'' # Greedy_star Space # Lit CHR ''/'' # Greedy_star Space # map Lit name
       @ [Greedy_star Space, Lit CHR ''>'']"

datatype key = allegati | nome | algoritmo | formato | descrizione | allegato

fun regex :: "key \<Rightarrow> item list" where
  "regex allegati =
     tag_open ''Allegati'' @ Group_lazy Dot_all 0 None # tag_close ''Allegati''"
| "regex nome =
     tag_open ''NomeAttachment'' @ Greedy_star Space # Group_lazy Dot 1 (Some 60)
       # Greedy_star Space # tag_close ''NomeAttachment''"
| "regex algoritmo =
     tag_open ''AlgoritmoCompressione'' @ Greedy_star Space # Group_lazy Dot 1 (Some 10)
       # Greedy_star Space # tag_close ''AlgoritmoCompressione''"
| "regex formato =
     tag_open ''FormatoAttachment'' @ Greedy_star Space # Group_lazy Dot 1 (Some 10)
       # Greedy_star Space # tag_close ''FormatoAttachment''"
| "regex descrizione =
     tag_open ''DescrizioneAttachment'' @ Group_lazy Dot 1 (Some 100)
       # tag_close ''DescrizioneAttachment''"
| "regex allegato =
     tag_open ''Attachment'' @ Group_lazy Base64_or_space 0 None # tag_close ''Attachment''"

section \<open>The block locator\<close>

definition list_attachments :: "string \<times> string \<Rightarrow> (string \<times> string) list" where
  "list_attachments file =
     (case file of (path, xml) \<Rightarrow> map (\<lambda>allegato. (path, allegato)) (findall (regex allegati) xml))"

section \<open>Library functions the program calls\<close>

subsection \<open>\<open>str.lower\<close>, \<open>str.endswith\<close>, \<open>str(int)\<close> and \<open>repr(str)\<close>\<close>

definition lower_char :: "char \<Rightarrow> char" where
  "lower_char c =
     (if (65 \<le> code c \<and> code c \<le> 90) \<or> (192 \<le> code c \<and> code c \<le> 222 \<and> code c \<noteq> 215)
      then char_of (code c + 32) else c)"

definition lower :: "string \<Rightarrow> string" where
  "lower s = map lower_char s"

definition endswith :: "string \<Rightarrow> string \<Rightarrow> bool" where
  "endswith s suffix = (length suffix \<le> length s \<and> drop (length s - length suffix) s = suffix)"

definition startswith :: "string \<Rightarrow> string \<Rightarrow> bool" where
  "startswith s prefix = (take (length prefix) s = prefix)"

definition digit :: "nat \<Rightarrow> char" where
  "digit d = char_of (48 + d)"

function str_nat :: "nat \<Rightarrow> string" where
  "str_nat n = (if n < 10 then [digit n] else str_nat (n div 10) @ [digit (n mod 10)])"
  by pat_completeness auto
termination
  by (relation "measure id") auto

declare str_nat.simps [simp del]

definition hex_digit :: "nat \<Rightarrow> char" where
  "hex_digit d = (if d < 10 then char_of (48 + d) else char_of (87 + d))"

definition squote :: char where
  "squote = CHR 0x27"

definition dquote :: char where
  "dquote = CHR 0x22"

definition backslash :: char where
  "backslash = CHR 0x5C"

definition is_printable :: "char \<Rightarrow> bool" where
  "is_printable c = ((32 \<le> code c \<and> code c \<le> 126) \<or> (161 \<le> code c \<and> code c \<noteq> 173))"

definition repr_char :: "char \<Rightarrow> char \<Rightarrow> string" where
  "repr_char quote c =
     (if c = quote \<or> c = backslash then [backslash, c]
      else if c = CHR 0x09 then [backslash, CHR ''t'']
      else if c = CHR 0x0A then [backslash, CHR ''n'']
      else if c = CHR 0x0D then [backslash, CHR ''r'']
      else if is_printable c then [c]
      else [backslash, CHR ''x'', hex_digit (code c div 16), hex_digit (code c mod 16)])"

definition repr :: "string \<Rightarrow> string" where
  "repr s =
     (let quote = (if squote \<in> set s \<and> dquote \<notin> set s then dquote else squote)
      in quote # concat (map (repr_char quote) s) @ [quote])"

subsection \<open>\<open>os.path\<close> (the POSIX flavour)\<close>

definition sep :: char where
  "sep = CHR ''/''"

text \<open>\<open>s.rfind(c)\<close>: the index of the last occurrence, or \<open>-1\<close>.\<close>

definition rfind :: "string \<Rightarrow> char \<Rightarrow> int" where
  "rfind s c =
     (if c \<in> set s then int (length s) - 1 - int (length (takeWhile (\<lambda>x. x \<noteq> c) (rev s))) else - 1)"

definition rstrip :: "char \<Rightarrow> string \<Rightarrow> string" where
  "rstrip c s = rev (dropWhile (\<lambda>x. x = c) (rev s))"

definition split :: "string \<Rightarrow> string \<times> string" where
  "split p =
     (let i = nat (rfind p sep + 1); head = take i p; tail = drop i p
      in (if head \<noteq> [] \<and> head \<noteq> replicate (length head) sep then rstrip sep head else head, tail))"

definition splitext :: "string \<Rightarrow> string \<times> string" where
  "splitext p =
     (let sepIndex = rfind p sep; dotIndex = rfind p CHR ''.''
      in if dotIndex > sepIndex
            \<and> list_ex (\<lambda>c. c \<noteq> CHR ''.'') (take (nat (dotIndex - (sepIndex + 1))) (drop (nat (sepIndex + 1)) p))
         then (take (nat dotIndex) p, drop (nat dotIndex) p)
         else (p, []))"

definition join :: "string \<Rightarrow> string \<Rightarrow> string" where
  "join a b =
     (if startswith b [sep] then b
      else if a = [] \<or> endswith a [sep] then a @ b
      else a @ [sep] @ b)"

fun split_sep :: "string \<Rightarrow> string list" where
  "split_sep [] = [[]]"
| "split_sep (c # cs) =
     (if c = sep then [] # split_sep cs
      else (case split_sep cs of [] \<Rightarrow> [[c]] | w # ws \<Rightarrow> (c # w) # ws))"

fun join_sep :: "string list \<Rightarrow> string" where
  "join_sep [] = []"
| "join_sep [w] = w"
| "join_sep (w # ws) = w @ [sep] @ join_sep ws"

definition normpath :: "string \<Rightarrow> string" where
  "normpath path =
     (if path = [] then ''.''
      else
        let initial_slashes =
              (if \<not> startswith path [sep] then 0
               else if startswith path [sep, sep] \<and> \<not> startswith path [sep, sep, sep] then 2
               else (1::nat));
            comps =
              foldl (\<lambda>new_comps comp.
                  if comp = [] \<or> comp = ''.'' then new_comps
                  else if comp \<noteq> ''..'' \<or> (initial_slashes = 0 \<and> new_comps = [])
                          \<or> (new_comps \<noteq> [] \<and> last new_comps = ''..'')
                    then new_comps @ [comp]
                  else if new_comps \<noteq> [] then butlast new_comps
                  else new_comps)
                [] (split_sep path);
            joined = replicate initial_slashes sep @ join_sep comps
        in if joined = [] then ''.'' else joined)"

subsection \<open>\<open>base64.b64decode\<close> on a \<open>str\<close>\<close>

datatype exn =
    AttributeError
  | ValueError_ascii
  | ValueError_null
  | Incorrect_padding
  | UnicodeDecodeError string
  | FileNotFoundError string
  | NotADirectoryError string
  | IsADirectoryError string
  | PermissionError string
  | FileExistsError string
  | SystemExit nat

text \<open>\<open>str(ex)\<close>, the text \<open>print(ex)\<close> and the f-string write.\<close>

fun str_exn :: "exn \<Rightarrow> string" where
  "str_exn AttributeError =
     [squote] @ ''NoneType'' @ [squote] @ '' object has no attribute '' @ [squote] @ ''group'' @ [squote]"
| "str_exn ValueError_ascii = ''string argument should contain only ASCII characters''"
| "str_exn ValueError_null = ''embedded null byte''"
| "str_exn Incorrect_padding = ''Incorrect padding''"
| "str_exn (UnicodeDecodeError msg) = msg"
| "str_exn (FileNotFoundError p) = ''[Errno 2] No such file or directory: '' @ repr p"
| "str_exn (NotADirectoryError p) = ''[Errno 20] Not a directory: '' @ repr p"
| "str_exn (IsADirectoryError p) = ''[Errno 21] Is a directory: '' @ repr p"
| "str_exn (PermissionError p) = ''[Errno 13] Permission denied: '' @ repr p"
| "str_exn (FileExistsError p) = ''[Errno 17] File exists: '' @ repr p"
| "str_exn (SystemExit n) = str_nat n"

text \<open>The decoding table of \<open>binascii\<close>: the padding character has the value 0 in it.\<close>

definition table_a2b_base64 :: "char \<Rightarrow> nat option" where
  "table_a2b_base64 c =
     (if 65 \<le> code c \<and> code c \<le> 90 then Some (code c - 65)
      else if 97 \<le> code c \<and> code c \<le> 122 then Some (code c - 71)
      else if 48 \<le> code c \<and> code c \<le> 57 then Some (code c + 4)
      else if c = CHR ''+'' then Some 62
      else if c = CHR ''/'' then Some 63
      else if c = CHR ''='' then Some 0
      else None)"

text \<open>\<open>binascii_find_valid(s, slen, num)\<close>: the \<open>(num+1)\<close>-th character of \<open>s\<close> that the table knows.\<close>

fun binascii_find_valid :: "string \<Rightarrow> nat \<Rightarrow> char option" where
  "binascii_find_valid [] num = None"
| "binascii_find_valid (c # cs) num =
     (if code c \<le> 127 \<and> table_a2b_base64 c \<noteq> None
      then (if num = 0 then Some c else binascii_find_valid cs (num - 1))
      else binascii_find_valid cs num)"

text \<open>
  The loop of \<open>binascii.a2b_base64\<close>, with its variables \<open>quad_pos\<close>, \<open>leftbits\<close>,
  \<open>leftchar\<close> and the bytes written so far. Characters outside the table are skipped, a
  padding character that ends a quad stops the loop, and bits left over at the end of the
  input raise \<open>binascii.Error\<close>.
\<close>

fun a2b_loop :: "string \<Rightarrow> nat \<Rightarrow> nat \<Rightarrow> nat \<Rightarrow> bytes \<Rightarrow> exn + bytes" where
  "a2b_loop [] quad_pos leftbits leftchar bin_data =
     (if leftbits \<noteq> 0 then Inl Incorrect_padding else Inr bin_data)"
| "a2b_loop (this_ch # ascii_data) quad_pos leftbits leftchar bin_data =
     (if 127 < code this_ch \<or> this_ch = CHR 0x0D \<or> this_ch = CHR 0x0A \<or> this_ch = CHR '' ''
      then a2b_loop ascii_data quad_pos leftbits leftchar bin_data
      else if this_ch = CHR ''='' then
        (if quad_pos < 2
            \<or> (quad_pos = 2 \<and> binascii_find_valid (this_ch # ascii_data) 1 \<noteq> Some CHR ''='')
         then a2b_loop ascii_data quad_pos leftbits leftchar bin_data
         else Inr bin_data)
      else
        (case table_a2b_base64 this_ch of
           None \<Rightarrow> a2b_loop ascii_data quad_pos leftbits leftchar bin_data
         | Some v \<Rightarrow>
             if leftbits + 6 \<ge> 8 then
               a2b_loop ascii_data ((quad_pos + 1) mod 4) (leftbits + 6 - 8)
                 ((leftchar * 64 + v) mod 2 ^ (leftbits + 6 - 8))
                 (bin_data @ [char_of ((leftchar * 64 + v) div 2 ^ (leftbits + 6 - 8) mod 256)])
             else
               a2b_loop ascii_data ((quad_pos + 1) mod 4) (leftbits + 6) (leftchar * 64 + v) bin_data))"

definition a2b_base64 :: "string \<Rightarrow> exn + bytes" where
  "a2b_base64 s = a2b_loop s 0 0 0 []"

definition b64decode :: "string \<Rightarrow> exn + bytes" where
  "b64decode s = (if list_ex (\<lambda>c. 127 < code c) s then Inl ValueError_ascii else a2b_base64 s)"

text \<open>
  The encoder is not part of the program; it is the standard base64 encoding (RFC 4648,
  with padding), against which decoding is compared.
\<close>

definition table_b2a_base64 :: string where
  "table_b2a_base64 = ''ABCDEFGHIJKLMNOPQRSTUVWXYZabcdefghijklmnopqrstuvwxyz0123456789+/''"

definition b2a :: "nat \<Rightarrow> char" where
  "b2a v = table_b2a_base64 ! v"

fun b64encode :: "bytes \<Rightarrow> string" where
  "b64encode [] = []"
| "b64encode [x] = [b2a (code x div 4), b2a (code x mod 4 * 16), CHR ''='', CHR ''='']"
| "b64encode [x, y] =
     [b2a (code x div 4), b2a (code x mod 4 * 16 + code y div 16), b2a (code y mod 16 * 4), CHR ''='']"
| "b64encode (x # y # z # rest) =
     [b2a (code x div 4), b2a (code x mod 4 * 16 + code y div 16),
      b2a (code y mod 16 * 4 + code z div 64), b2a (code z mod 64)] @ b64encode rest"

section \<open>The attachment decoder\<close>

datatype step =
    Diagnostic string
  | Dropped
  | Yielded "string \<times> string \<times> bytes"

text \<open>Lines 158 to 164: the name tag, or the fallback built from the document's name.\<close>

definition resolve_nome :: "nat \<Rightarrow> string \<Rightarrow> string \<Rightarrow> string" where
  "resolve_nome idx basename attachment =
     (case search (regex nome) attachment of
        Some g \<Rightarrow> g
      | None \<Rightarrow> fst (splitext basename) @ ''_allegato_'' @ str_nat (idx + 1))"

text \<open>Lines 178 to 185: the signature first, then the format tag, then the fallback.\<close>

definition resolve_ext :: "bytes \<Rightarrow> string \<Rightarrow> string" where
  "resolve_ext attachment' attachment =
     (if take 5 attachment' = ''%PDF-'' then ''pdf''
      else (case search (regex formato) attachment of
              Some g \<Rightarrow> lower g
            | None \<Rightarrow> ''formatoSconosciuto''))"

text \<open>Lines 166 to 168: \<open>group(1)\<close> of a missing match raises, as a failed decoding does.\<close>

definition decode_payload :: "string \<Rightarrow> exn + bytes" where
  "decode_payload attachment =
     (case search (regex allegato) attachment of
        None \<Rightarrow> Inl AttributeError
      | Some g \<Rightarrow> b64decode g)"

definition error_line :: "string \<Rightarrow> string \<Rightarrow> exn \<Rightarrow> string" where
  "error_line nome' basename ex =
     ''Error decoding '' @ [dquote] @ nome' @ [dquote] @ '' in '' @ [dquote] @ basename @ [dquote]
       @ '' : '' @ str_exn ex"

text \<open>One turn of the loop of \<open>yield_decoded_attachment\<close>.\<close>

definition decode_block :: "nat \<Rightarrow> string \<times> string \<Rightarrow> step" where
  "decode_block idx block =
     (case block of (path, attachment) \<Rightarrow>
        (case split path of (dirname, basename) \<Rightarrow>
           (let nome' = resolve_nome idx basename attachment
            in case decode_payload attachment of
                 Inl ex \<Rightarrow> Diagnostic (error_line nome' basename ex)
               | Inr attachment' \<Rightarrow>
                   if attachment' = [] then Dropped
                   else Yielded (dirname, nome' @ ''.'' @ resolve_ext attachment' attachment,
                                 attachment'))))"

definition yield_decoded_attachment :: "(string \<times> string) list \<Rightarrow> step list" where
  "yield_decoded_attachment attachments =
     map (\<lambda>(idx, block). decode_block idx block) (enumerate 0 attachments)"

definition yielded :: "step list \<Rightarrow> (string \<times> string \<times> bytes) list" where
  "yielded steps = concat (map (\<lambda>st. case st of Yielded a \<Rightarrow> [a] | _ \<Rightarrow> []) steps)"

definition diagnostics :: "step list \<Rightarrow> string list" where
  "diagnostics steps = concat (map (\<lambda>st. case st of Diagnostic d \<Rightarrow> [d] | _ \<Rightarrow> []) steps)"

section \<open>The file system and the diagnostic stream\<close>

text \<open>
  The operating system is outside the program. It is modelled as a table from absolute,
  normalised paths to nodes: a regular file with its bytes, or a directory with the names
  \<open>os.listdir\<close> returns for it, each with a read and a write permission. A path the program
  passes to \<open>os.listdir\<close>, \<open>os.path.isfile\<close> or \<open>open(..., 'r')\<close> has been through
  \<open>os.path.abspath\<close> and is looked up as such; a path opened for writing is resolved
  component by component. \<open>text_codec\<close> is what reading in text
  mode does to the bytes of a file (decoding, newline translation), or the error it raises.
  \<open>stderr\<close> holds one entry for each \<open>print(..., file=sys.stderr)\<close>. Symbolic links and
  search permissions on the directories of a path are not modelled.
\<close>

datatype node = File bytes bool bool | Dir "string list" bool bool

record world =
  cwd :: string
  fs :: "string \<Rightarrow> node option"
  text_codec :: "bytes \<Rightarrow> exn + string"
  stderr :: "string list"

definition print_stderr :: "string \<Rightarrow> world \<Rightarrow> world" where
  "print_stderr line w = w\<lparr>stderr := stderr w @ [line]\<rparr>"

definition abspath :: "world \<Rightarrow> string \<Rightarrow> string" where
  "abspath w path = normpath (if startswith path [sep] then path else join (cwd w) path)"

definition is_file :: "node option \<Rightarrow> bool" where
  "is_file n = (case n of Some (File c r wr) \<Rightarrow> True | _ \<Rightarrow> False)"

text \<open>A path below a regular file does not resolve: the system reports \<open>ENOTDIR\<close>, else \<open>ENOENT\<close>.\<close>

definition under_file :: "world \<Rightarrow> string \<Rightarrow> bool" where
  "under_file w q = list_ex (\<lambda>i. q ! i = sep \<and> is_file (fs w (take i q))) [1..<length q]"

definition missing :: "world \<Rightarrow> string \<Rightarrow> exn" where
  "missing w path =
     (if under_file w (abspath w path) then NotADirectoryError path else FileNotFoundError path)"

text \<open>Resolving a path to its node; a path with a null character is refused before that.\<close>

definition stat :: "world \<Rightarrow> string \<Rightarrow> exn + node" where
  "stat w path =
     (if CHR 0x00 \<in> set path then Inl ValueError_null
      else (case fs w (abspath w path) of
              Some n \<Rightarrow> Inr n
            | None \<Rightarrow> Inl (missing w path)))"

definition listdir :: "world \<Rightarrow> string \<Rightarrow> exn + string list" where
  "listdir w path =
     (case stat w path of
        Inl ex \<Rightarrow> Inl ex
      | Inr (Dir names r wr) \<Rightarrow> if r then Inr names else Inl (PermissionError path)
      | Inr (File c r wr) \<Rightarrow> Inl (NotADirectoryError path))"

definition isfile :: "world \<Rightarrow> string \<Rightarrow> bool" where
  "isfile w path = (case stat w path of Inr (File c r wr) \<Rightarrow> True | _ \<Rightarrow> False)"

text \<open>\<open>open(path, 'r')\<close> and \<open>file.read()\<close>.\<close>

definition read_text :: "world \<Rightarrow> string \<Rightarrow> exn + string" where
  "read_text w path =
     (case stat w path of
        Inl ex \<Rightarrow> Inl ex
      | Inr (File c r wr) \<Rightarrow> if r then text_codec w c else Inl (PermissionError path)
      | Inr (Dir names r wr) \<Rightarrow> Inl (IsADirectoryError path))"

text \<open>
  Opening a file for writing resolves the path as the system does, one component after
  the other, starting at the root or at the working directory: an empty component and
  \<open>.\<close> stay where they are, \<open>..\<close> goes to the parent, and a name must be an existing
  directory to be entered. Nothing is normalised beforehand, so a path through a missing
  directory fails even when \<open>..\<close> follows it.
\<close>

fun walk :: "world \<Rightarrow> string \<Rightarrow> string \<Rightarrow> string list \<Rightarrow> exn + string" where
  "walk w path cur [] = Inr cur"
| "walk w path cur (c # cs) =
     (if c = [] \<or> c = ''.'' then walk w path cur cs
      else if c = ''..'' then walk w path (fst (split cur)) cs
      else (case fs w (join cur c) of
              Some (Dir names r wr) \<Rightarrow> walk w path (join cur c) cs
            | Some (File d r wr) \<Rightarrow> Inl (NotADirectoryError path)
            | None \<Rightarrow> Inl (FileNotFoundError path)))"

text \<open>The components of a path, without the empty ones that trailing separators leave.\<close>

definition components :: "string \<Rightarrow> string list" where
  "components path = rev (dropWhile (\<lambda>c. c = []) (rev (split_sep path)))"

definition start_dir :: "world \<Rightarrow> string \<Rightarrow> string" where
  "start_dir w path = (if startswith path [sep] then [sep] else cwd w)"

text \<open>The directory in which the last component of the path is looked up.\<close>

definition parent_of :: "world \<Rightarrow> string \<Rightarrow> exn + string" where
  "parent_of w path =
     (case fs w (start_dir w path) of
        Some (Dir names r wr) \<Rightarrow> walk w path (start_dir w path) (butlast (components path))
      | Some (File d r wr) \<Rightarrow> Inl (NotADirectoryError path)
      | None \<Rightarrow> Inl (FileNotFoundError path))"

text \<open>
  \<open>open(path, mode)\<close>, \<open>file.write(data)\<close> and the close, for the modes \<open>'wb'\<close> (create or
  truncate) and \<open>'xb'\<close> (create, fail when the path exists). A new file is entered in the
  listing of its directory.
\<close>

definition write_bytes :: "world \<Rightarrow> string \<Rightarrow> string \<Rightarrow> bytes \<Rightarrow> exn + world" where
  "write_bytes w path mode data =
     (if CHR 0x00 \<in> set path then Inl ValueError_null
      else if path = [] then Inl (FileNotFoundError path)
      else (case parent_of w path of
              Inl ex \<Rightarrow> Inl ex
            | Inr parent \<Rightarrow>
                (case fs w parent of
                   Some (Dir names pr pw) \<Rightarrow>
                     if components path = [] \<or> last (components path) = ''.''
                          \<or> last (components path) = ''..'' then
                       Inl (if mode = ''xb'' then FileExistsError path else IsADirectoryError path)
                     else if endswith path [sep] then Inl (IsADirectoryError path)
                     else (case fs w (join parent (last (components path))) of
                             Some (Dir ns r wr) \<Rightarrow>
                               Inl (if mode = ''xb'' then FileExistsError path
                                    else IsADirectoryError path)
                           | Some (File c r wr) \<Rightarrow>
                               if mode = ''xb'' then Inl (FileExistsError path)
                               else if wr then
                                 Inr (w\<lparr>fs := (fs w)(join parent (last (components path))
                                                     \<mapsto> File data r wr)\<rparr>)
                               else Inl (PermissionError path)
                           | None \<Rightarrow>
                               if pw then
                                 Inr (w\<lparr>fs := (fs w)
                                     (parent \<mapsto> Dir (names @ [last (components path)]) pr pw,
                                      join parent (last (components path))
                                        \<mapsto> File data True True)\<rparr>)
                               else Inl (PermissionError path))
                 | Some (File d r wr) \<Rightarrow> Inl (NotADirectoryError path)
                 | None \<Rightarrow> Inl (FileNotFoundError path))))"

text \<open>Reading a file back in binary mode: \<open>open(path, 'rb')\<close> and \<open>file.read()\<close>.\<close>

definition read_bytes :: "world \<Rightarrow> string \<Rightarrow> exn + bytes" where
  "read_bytes w path =
     (if CHR 0x00 \<in> set path then Inl ValueError_null
      else if path = [] then Inl (FileNotFoundError path)
      else (case parent_of w path of
              Inl ex \<Rightarrow> Inl ex
            | Inr parent \<Rightarrow>
                if components path = [] \<or> last (components path) = ''.''
                     \<or> last (components path) = ''..'' then Inl (IsADirectoryError path)
                else (case fs w (join parent (last (components path))) of
                        Some (Dir ns r wr) \<Rightarrow> Inl (IsADirectoryError path)
                      | Some (File c r wr) \<Rightarrow>
                          if endswith path [sep] then Inl (NotADirectoryError path)
                          else if r then Inr c else Inl (PermissionError path)
                      | None \<Rightarrow> Inl (FileNotFoundError path))))"

text \<open>
  A path whose last component can name a regular file: no null character, a last component
  that is a name and not \<open>.\<close> or \<open>..\<close>, and no trailing separator.
\<close>

definition names_a_file :: "string \<Rightarrow> bool" where
  "names_a_file path =
     (CHR 0x00 \<notin> set path \<and> components path \<noteq> [] \<and> last (components path) \<noteq> ''.''
      \<and> last (components path) \<noteq> ''..'' \<and> \<not> endswith path [sep])"

section \<open>The writer\<close>

definition outpath_of :: "string \<times> string \<times> bytes \<Rightarrow> string option \<Rightarrow> string" where
  "outpath_of attachment outdir =
     (case attachment of (dirname, filename, data) \<Rightarrow>
        (case outdir of
           Some d \<Rightarrow> if d \<noteq> [] then join d filename else join dirname filename
         | None \<Rightarrow> join dirname filename))"

definition write_attachment ::
    "string \<times> string \<times> bytes \<Rightarrow> string option \<Rightarrow> string \<Rightarrow> world \<Rightarrow> world" where
  "write_attachment attachment outdir safety w =
     (let outpath = outpath_of attachment outdir;
          mode = (if safety = ''low'' then ''wb'' else ''xb'')
      in case write_bytes w outpath mode (snd (snd attachment)) of
           Inl ex \<Rightarrow> print_stderr (str_exn ex) w
         | Inr w' \<Rightarrow> w')"

section \<open>The source enumerator\<close>

text \<open>
  The value of \<open>files\<close>: the paths of a single file, or the names of a listing, which the
  generator expression filters one by one as the loop reaches them.
\<close>

datatype candidate = Listed string string | Given string

definition files :: "world \<Rightarrow> string \<Rightarrow> (exn + candidate list) \<times> world" where
  "files w path =
     (let path = abspath w path
      in case listdir w path of
           Inr names \<Rightarrow> (Inr (map (Listed path) names), w)
         | Inl (NotADirectoryError p) \<Rightarrow> (Inr [Given path], w)
         | Inl (FileNotFoundError p) \<Rightarrow>
             (Inl (SystemExit 1), print_stderr (str_exn (FileNotFoundError p)) w)
         | Inl ex \<Rightarrow> (Inl ex, w))"

definition selected :: "world \<Rightarrow> candidate \<Rightarrow> string option" where
  "selected w c =
     (case c of
        Listed path i \<Rightarrow> if isfile w (join path i) \<and> endswith i ''.xml'' then Some (join path i) else None
      | Given path \<Rightarrow> Some path)"

text \<open>
  The loop of \<open>yield_xml_files\<close>, one candidate at a time: nothing for a name the filter
  drops, the error printed for a file that cannot be read, or the pair yielded.
\<close>

datatype visit = Skipped | Unreadable exn | Document "string \<times> string"

definition next_file :: "world \<Rightarrow> candidate \<Rightarrow> visit" where
  "next_file w c =
     (case selected w c of
        None \<Rightarrow> Skipped
      | Some path' \<Rightarrow>
          (case read_text w path' of
             Inl ex \<Rightarrow> Unreadable ex
           | Inr xml \<Rightarrow> Document (path', xml)))"

text \<open>What \<open>yield_xml_files\<close> yields while its consumer leaves the file system alone.\<close>

definition yield_xml_files :: "world \<Rightarrow> string \<Rightarrow> exn + (string \<times> string) list" where
  "yield_xml_files w path =
     (case fst (files w path) of
        Inl ex \<Rightarrow> Inl ex
      | Inr cs \<Rightarrow>
          Inr (concat (map (\<lambda>c. case next_file w c of Document file \<Rightarrow> [file] | _ \<Rightarrow> []) cs)))"

section \<open>The pipeline\<close>

definition consume :: "string option \<Rightarrow> string \<Rightarrow> step list \<Rightarrow> world \<Rightarrow> world" where
  "consume outdir safety steps w =
     fold (\<lambda>st w. case st of
                     Diagnostic line \<Rightarrow> print_stderr line w
                   | Dropped \<Rightarrow> w
                   | Yielded attachment \<Rightarrow> write_attachment attachment outdir safety w)
       steps w"

definition process_candidate :: "string option \<Rightarrow> string \<Rightarrow> candidate \<Rightarrow> world \<Rightarrow> world" where
  "process_candidate outdir safety c w =
     (case next_file w c of
        Skipped \<Rightarrow> w
      | Unreadable ex \<Rightarrow> print_stderr (str_exn ex) w
      | Document file \<Rightarrow> consume outdir safety (yield_decoded_attachment (list_attachments file)) w)"

text \<open>
  The body of \<open>main\<close> after the arguments are parsed. The first component is the exception
  that leaves \<open>main\<close>, if one does; the interpreter turns it into the exit status.
\<close>

definition main :: "string \<Rightarrow> string option \<Rightarrow> string \<Rightarrow> world \<Rightarrow> exn option \<times> world" where
  "main path outdir safety w =
     (case files w path of
        (Inl ex, w') \<Rightarrow> (Some ex, w')
      | (Inr cs, w') \<Rightarrow> (None, fold (process_candidate outdir safety) cs w'))"

fun exit_status :: "exn option \<Rightarrow> nat" where
  "exit_status None = 0"
| "exit_status (Some (SystemExit n)) = n"
| "exit_status (Some ex) = 1"

section \<open>Notions used to state the properties\<close>

text \<open>The documents a listing yields in a world that does not change during the iteration.\<close>

definition listed_documents :: "world \<Rightarrow> string \<Rightarrow> string list \<Rightarrow> (string \<times> string) list" where
  "listed_documents w p names =
     concat (map (\<lambda>i. if isfile w (join p i) \<and> endswith i ''.xml''
                        then (case read_text w (join p i) of Inr xml \<Rightarrow> [(join p i, xml)] | Inl ex \<Rightarrow> [])
                        else []) names)"

text \<open>A small file system for the examples: a directory with one invoice, a text file, a
  subdirectory and an earlier output file, and a directory that cannot be listed.\<close>

definition disk :: world where
  "disk = \<lparr>cwd = ''/home'',
           fs = [''/'' \<mapsto> Dir [''home'', ''d'', ''locked''] True True,
                 ''/home'' \<mapsto> Dir [] True True,
                 ''/d'' \<mapsto> Dir [''a.xml'', ''b.txt'', ''sub'', ''doc.pdf''] True True,
                 ''/d/a.xml'' \<mapsto> File ''<Allegati><Attachment>QUJD</Attachment></Allegati>'' True True,
                 ''/d/b.txt'' \<mapsto> File ''plain'' True True,
                 ''/d/sub'' \<mapsto> Dir [''z.xml''] True True,
                 ''/d/sub/z.xml'' \<mapsto> File [] True True,
                 ''/d/doc.pdf'' \<mapsto> File ''old'' True True,
                 ''/locked'' \<mapsto> Dir [] False True],
           text_codec = Inr,
           stderr = []\<rparr>"

text \<open>
  Tags as the patterns read them, written as plain scans: \<open><\<close>, optional whitespace, the
  name, optional whitespace, \<open>>\<close> for an opening tag, with a \<open>/\<close> between whitespace for
  a closing tag. Both return the text after the tag.
\<close>

definition open_tag_at :: "string \<Rightarrow> string \<Rightarrow> string option" where
  "open_tag_at name s =
     (case s of
        [] \<Rightarrow> None
      | c # r \<Rightarrow>
          if c = CHR ''<'' \<and> take (length name) (dropWhile is_space r) = name then
            (case dropWhile is_space (drop (length name) (dropWhile is_space r)) of
               [] \<Rightarrow> None
             | d # r' \<Rightarrow> if d = CHR ''>'' then Some r' else None)
          else None)"

definition close_tag_at :: "string \<Rightarrow> string \<Rightarrow> string option" where
  "close_tag_at name s =
     (case s of
        [] \<Rightarrow> None
      | c # r \<Rightarrow>
          if c = CHR ''<'' then
            (case dropWhile is_space r of
               [] \<Rightarrow> None
             | d # r' \<Rightarrow>
                 if d = CHR ''/'' \<and> take (length name) (dropWhile is_space r') = name then
                   (case dropWhile is_space (drop (length name) (dropWhile is_space r')) of
                      [] \<Rightarrow> None
                    | e # r'' \<Rightarrow> if e = CHR ''>'' then Some r'' else None)
                 else None)
          else None)"

definition plain_name :: "string \<Rightarrow> bool" where
  "plain_name name = (name \<noteq> [] \<and> \<not> is_space (hd name) \<and> CHR ''<'' \<notin> set name)"

text \<open>
  A document with its containers laid out: before each container a gap with no opening tag
  in it, then the opening tag, a body with no closing tag in it, and the closing tag; after
  the last container a tail with no opening tag.
\<close>

fun occurs_open :: "string \<Rightarrow> string \<Rightarrow> bool" where
  "occurs_open name [] = False"
| "occurs_open name (x # xs) = (open_tag_at name (x # xs) \<noteq> None \<or> occurs_open name xs)"

fun occurs_close :: "string \<Rightarrow> string \<Rightarrow> bool" where
  "occurs_close name [] = False"
| "occurs_close name (x # xs) = (close_tag_at name (x # xs) \<noteq> None \<or> occurs_close name xs)"

fun document :: "(string \<times> string \<times> string \<times> string) list \<Rightarrow> string \<Rightarrow> string" where
  "document [] tail = tail"
| "document ((gap, opn, body, cls) # segs) tail = gap @ opn @ body @ cls @ document segs tail"

definition well_formed :: "string \<Rightarrow> (string \<times> string \<times> string \<times> string) list \<Rightarrow> string \<Rightarrow> bool" where
  "well_formed name segs tail =
     (list_all (\<lambda>(gap, opn, body, cls).
         \<not> occurs_open name gap \<and> open_tag_at name opn = Some []
         \<and> \<not> occurs_close name body \<and> close_tag_at name cls = Some []) segs
      \<and> \<not> occurs_open name tail)"

definition two_containers :: "(string \<times> string \<times> string \<times> string) list" where
  "two_containers =
     [(''<?xml?><Fattura>'', ''< Allegati >'', [CHR ''a'', CHR 0x0A, CHR ''b''], ''</ Allegati >''),
      ([CHR 0x0A], ''<Allegati>'', [], ''</Allegati>'')]"

text \<open>
  The positions of a text at which an opening or a closing tag starts, and \<open>str.strip\<close>.
\<close>

definition open_positions :: "string \<Rightarrow> string \<Rightarrow> nat list" where
  "open_positions name s = filter (\<lambda>k. open_tag_at name (drop k s) \<noteq> None) [0..<length s]"

definition close_positions :: "string \<Rightarrow> string \<Rightarrow> nat list" where
  "close_positions name s = filter (\<lambda>k. close_tag_at name (drop k s) \<noteq> None) [0..<length s]"

definition strip :: "string \<Rightarrow> string" where
  "strip s = rev (dropWhile is_space (rev (dropWhile is_space s)))"

definition long_name_block :: string where
  "long_name_block = ''<NomeAttachment> '' @ replicate 61 CHR ''a'' @ '' </NomeAttachment>''"

text \<open>The characters of an encoded payload: the base64 alphabet and the padding.\<close>

definition payload_char :: "char \<Rightarrow> bool" where
  "payload_char c = (is_b64_alphabet c \<and> code c \<le> 127 \<and> c \<noteq> CHR ''<'')"

section \<open>The decoder: properties\<close>

lemma nth_yield_decoded_attachment:
  "k < length attachments \<Longrightarrow>
     yield_decoded_attachment attachments ! k = decode_block k (attachments ! k)"
  by (simp add: yield_decoded_attachment_def nth_enumerate_eq)

lemma length_yield_decoded_attachment:
  "length (yield_decoded_attachment attachments) = length attachments"
  by (simp add: yield_decoded_attachment_def)

lemma decode_block_Yielded:
  "decode_block idx block = Yielded (d, f, data) \<Longrightarrow>
     data \<noteq> [] \<and> decode_payload (snd block) = Inr data"
  by (cases block) (auto simp: decode_block_def Let_def split: prod.splits sum.splits if_splits)

lemma yielded_set:
  "a \<in> set (yielded steps) \<longleftrightarrow> Yielded a \<in> set steps"
proof (induction steps)
  case Nil
  then show ?case by (simp add: yielded_def)
next
  case (Cons st steps)
  have "yielded (st # steps) = (case st of Yielded b \<Rightarrow> [b] | _ \<Rightarrow> []) @ yielded steps"
    by (simp add: yielded_def)
  with Cons show ?case by (cases st) auto
qed

lemma yielded_nonempty:
  "a \<in> set (yielded (yield_decoded_attachment attachments)) \<Longrightarrow> snd (snd a) \<noteq> []"
proof -
  assume "a \<in> set (yielded (yield_decoded_attachment attachments))"
  then have "Yielded a \<in> set (yield_decoded_attachment attachments)"
    by (simp add: yielded_set)
  then obtain idx block where "decode_block idx block = Yielded a"
    by (auto simp: yield_decoded_attachment_def)
  then show ?thesis
    using decode_block_Yielded [of idx block "fst a" "fst (snd a)" "snd (snd a)"] by simp
qed

text \<open>
  Claim C3. A block whose payload decodes to zero bytes is dropped by the decoder: it yields
  nothing and prints nothing. Hence every attachment the decoder yields, and so every
  attachment the writer receives, has a payload that is not empty.
\<close>

theorem empty_payload_dropped:
  "(decode_payload attachment = Inr [] \<longrightarrow>
      decode_block idx (path, attachment) = Dropped
      \<and> diagnostics [decode_block idx (path, attachment)] = []
      \<and> yielded [decode_block idx (path, attachment)] = [])
   \<and> (\<forall>a \<in> set (yielded (yield_decoded_attachment attachments)). snd (snd a) \<noteq> [])"
proof (intro conjI impI ballI)
  assume h: "decode_payload attachment = Inr []"
  then show d: "decode_block idx (path, attachment) = Dropped"
    by (simp add: decode_block_def split: prod.splits)
  show "diagnostics [decode_block idx (path, attachment)] = []"
    by (simp add: d diagnostics_def)
  show "yielded [decode_block idx (path, attachment)] = []"
    by (simp add: d yielded_def)
next
  fix a assume "a \<in> set (yielded (yield_decoded_attachment attachments))"
  then show "snd (snd a) \<noteq> []" by (rule yielded_nonempty)
qed

lemma eval_empty_payload: "decode_payload ''<Attachment></Attachment>'' = Inr []" by code_simp
lemma eval_one_block: "yielded (yield_decoded_attachment [(''/d/a.xml'', ''<Attachment>QUJD</Attachment>'')])
   = [(''/d'', ''a_allegato_1.formatoSconosciuto'', ''ABC'')]" by code_simp

theorem empty_payload_dropped_witness:
  "decode_payload ''<Attachment></Attachment>'' = Inr []
   \<and> decode_block 0 (''/d/a.xml'', ''<Attachment></Attachment>'') = Dropped
   \<and> yielded (yield_decoded_attachment [(''/d/a.xml'', ''<Attachment>QUJD</Attachment>'')])
       = [(''/d'', ''a_allegato_1.formatoSconosciuto'', ''ABC'')]
   \<and> snd (snd (''/d'', ''a_allegato_1.formatoSconosciuto'', ''ABC'')) \<noteq> []"
  using empty_payload_dropped [of "''<Attachment></Attachment>''" 0 "''/d/a.xml''"
      "[(''/d/a.xml'', ''<Attachment>QUJD</Attachment>'')]"] eval_empty_payload eval_one_block
  by simp


lemma map_enumerate_shift:
  "map (\<lambda>(i, b). f i b) (enumerate n ys) = map (\<lambda>(i, b). f (n + i) b) (enumerate 0 ys)"
proof (induction ys arbitrary: n f)
  case Nil
  then show ?case by simp
next
  case (Cons y ys)
  have "map (\<lambda>(i, b). f i b) (enumerate (Suc n) ys)
          = map (\<lambda>(i, b). f (Suc n + i) b) (enumerate 0 ys)"
    by (rule Cons.IH)
  moreover have "map (\<lambda>(i, b). f (n + i) b) (enumerate (Suc 0) ys)
          = map (\<lambda>(i, b). f (n + (Suc 0 + i)) b) (enumerate 0 ys)"
    using Cons.IH [of "\<lambda>i. f (n + i)" "Suc 0"] by simp
  ultimately show ?case by simp
qed

lemma yield_decoded_attachment_append:
  "yield_decoded_attachment (before @ block # after)
     = yield_decoded_attachment before @ decode_block (length before) block
         # map (\<lambda>(i, b). decode_block (length before + 1 + i) b) (enumerate 0 after)"
proof -
  have "map (\<lambda>(i, b). decode_block i b) (enumerate (Suc (length before)) after)
          = map (\<lambda>(i, b). decode_block (Suc (length before) + i) b) (enumerate 0 after)"
    by (rule map_enumerate_shift)
  then show ?thesis
    by (simp add: yield_decoded_attachment_def enumerate_append_eq)
qed

lemma decode_payload_Inl:
  "decode_payload attachment = Inl ex \<longleftrightarrow>
     (search (regex allegato) attachment = None \<and> ex = AttributeError)
     \<or> (\<exists>g. search (regex allegato) attachment = Some g \<and> b64decode g = Inl ex)"
  by (auto simp: decode_payload_def split: option.splits)

lemma decode_block_Inl:
  "decode_payload attachment = Inl ex \<Longrightarrow>
     decode_block idx (path, attachment)
       = Diagnostic (error_line (resolve_nome idx (snd (split path)) attachment) (snd (split path)) ex)"
  by (simp add: decode_block_def split: prod.splits)

text \<open>
  Claim C2. When the payload pattern finds nothing in a block (\<open>group\<close> is then called on
  \<open>None\<close>), or the text it captures is rejected by \<open>b64decode\<close>, the decoder prints exactly
  one message, \<open>Error decoding "name" in "basename" : error\<close>, yields nothing for the block,
  and goes on with the blocks after it, which keep their own indices.
\<close>

theorem decode_failure_reported:
  assumes "(search (regex allegato) attachment = None \<and> ex = AttributeError)
           \<or> (\<exists>g. search (regex allegato) attachment = Some g \<and> b64decode g = Inl ex)"
  shows "decode_block idx (path, attachment)
           = Diagnostic (''Error decoding '' @ [dquote] @ resolve_nome idx (snd (split path)) attachment
               @ [dquote] @ '' in '' @ [dquote] @ snd (split path) @ [dquote] @ '' : '' @ str_exn ex)
         \<and> yield_decoded_attachment (before @ (path, attachment) # after)
           = yield_decoded_attachment before
               @ Diagnostic (''Error decoding '' @ [dquote]
                   @ resolve_nome (length before) (snd (split path)) attachment
                   @ [dquote] @ '' in '' @ [dquote] @ snd (split path) @ [dquote] @ '' : '' @ str_exn ex)
               # map (\<lambda>(i, b). decode_block (length before + 1 + i) b) (enumerate 0 after)"
proof -
  from assms have h: "decode_payload attachment = Inl ex"
    by (simp add: decode_payload_Inl)
  show ?thesis
    by (simp add: yield_decoded_attachment_append decode_block_Inl [OF h] error_line_def)
qed

lemma eval_no_payload_tag: "search (regex allegato) ''<NomeAttachment>doc</NomeAttachment>'' = None" by code_simp
lemma eval_first_block: "yield_decoded_attachment [(''/d/a.xml'', ''<Attachment>QUJD</Attachment>'')]
   = [Yielded (''/d'', ''a_allegato_1.formatoSconosciuto'', ''ABC'')]" by code_simp
lemma eval_third_block: "decode_block (Suc (Suc 0)) (''/d/a.xml'', ''<Attachment>QUJD</Attachment>'')
   = Yielded (''/d'', ''a_allegato_3.formatoSconosciuto'', ''ABC'')" by code_simp
lemma eval_name_doc: "resolve_nome (Suc 0) ''a.xml'' ''<NomeAttachment>doc</NomeAttachment>'' = ''doc''" by code_simp
lemma eval_split_a: "split ''/d/a.xml'' = (''/d'', ''a.xml'')" by code_simp

theorem decode_failure_reported_witness:
  "search (regex allegato) ''<NomeAttachment>doc</NomeAttachment>'' = None
   \<and> yield_decoded_attachment
        [(''/d/a.xml'', ''<Attachment>QUJD</Attachment>''),
         (''/d/a.xml'', ''<NomeAttachment>doc</NomeAttachment>''),
         (''/d/a.xml'', ''<Attachment>QUJD</Attachment>'')]
      = [Yielded (''/d'', ''a_allegato_1.formatoSconosciuto'', ''ABC''),
         Diagnostic (''Error decoding '' @ [dquote] @ ''doc'' @ [dquote] @ '' in '' @ [dquote] @ ''a.xml''
            @ [dquote] @ '' : '' @ str_exn AttributeError),
         Yielded (''/d'', ''a_allegato_3.formatoSconosciuto'', ''ABC'')]"
proof -
  have h: "(search (regex allegato) ''<NomeAttachment>doc</NomeAttachment>'' = None
             \<and> AttributeError = AttributeError)
           \<or> (\<exists>g. search (regex allegato) ''<NomeAttachment>doc</NomeAttachment>'' = Some g
                 \<and> b64decode g = Inl AttributeError)"
    using eval_no_payload_tag by blast
  have "yield_decoded_attachment
          ([(''/d/a.xml'', ''<Attachment>QUJD</Attachment>'')]
            @ (''/d/a.xml'', ''<NomeAttachment>doc</NomeAttachment>'')
            # [(''/d/a.xml'', ''<Attachment>QUJD</Attachment>'')])
        = [Yielded (''/d'', ''a_allegato_1.formatoSconosciuto'', ''ABC''),
         Diagnostic (''Error decoding '' @ [dquote] @ ''doc'' @ [dquote] @ '' in '' @ [dquote] @ ''a.xml''
            @ [dquote] @ '' : '' @ str_exn AttributeError),
         Yielded (''/d'', ''a_allegato_3.formatoSconosciuto'', ''ABC'')]"
    using decode_failure_reported [OF h, of 0 "''/d/a.xml''"
      "[(''/d/a.xml'', ''<Attachment>QUJD</Attachment>'')]"
      "[(''/d/a.xml'', ''<Attachment>QUJD</Attachment>'')]"]
    by (simp add: eval_first_block eval_third_block eval_name_doc eval_split_a)
  then show ?thesis using eval_no_payload_tag by simp
qed

lemma resolve_nome_None:
  "search (regex nome) attachment = None \<Longrightarrow>
     resolve_nome idx basename attachment = fst (splitext basename) @ ''_allegato_'' @ str_nat (idx + 1)"
  by (simp add: resolve_nome_def)

lemma eval_splitext_invoice: "fst (splitext ''invoice.xml'') = ''invoice''" by code_simp
lemma eval_str_1_plus_1: "str_nat (1 + 1) = ''2''" by code_simp

text \<open>
  Claim C5. When the name pattern finds nothing in a block, the name is the document's base
  name without its extension, \<open>_allegato_\<close> and the 1-based position of the block among the
  blocks handed to the decoder, which are the blocks of one document. The block at index 1
  of \<open>invoice.xml\<close> is named \<open>invoice_allegato_2\<close>.
\<close>

theorem fallback_name:
  assumes "search (regex nome) attachment = None"
  shows "resolve_nome idx basename attachment
           = fst (splitext basename) @ ''_allegato_'' @ str_nat (idx + 1)
         \<and> (k < length attachments \<and> attachments ! k = (path, attachment) \<longrightarrow>
              yield_decoded_attachment attachments ! k
                = (case decode_payload attachment of
                     Inl ex \<Rightarrow>
                       Diagnostic (error_line
                         (fst (splitext (snd (split path))) @ ''_allegato_'' @ str_nat (k + 1))
                         (snd (split path)) ex)
                   | Inr data \<Rightarrow>
                       if data = [] then Dropped
                       else Yielded (fst (split path),
                              fst (splitext (snd (split path))) @ ''_allegato_'' @ str_nat (k + 1)
                                @ ''.'' @ resolve_ext data attachment, data)))
         \<and> resolve_nome 1 ''invoice.xml'' attachment = ''invoice_allegato_2''"
proof (intro conjI impI)
  show "resolve_nome idx basename attachment
           = fst (splitext basename) @ ''_allegato_'' @ str_nat (idx + 1)"
    using assms by (rule resolve_nome_None)
next
  assume k: "k < length attachments \<and> attachments ! k = (path, attachment)"
  then have "yield_decoded_attachment attachments ! k = decode_block k (path, attachment)"
    by (simp add: nth_yield_decoded_attachment)
  then show "yield_decoded_attachment attachments ! k
                = (case decode_payload attachment of
                     Inl ex \<Rightarrow>
                       Diagnostic (error_line
                         (fst (splitext (snd (split path))) @ ''_allegato_'' @ str_nat (k + 1))
                         (snd (split path)) ex)
                   | Inr data \<Rightarrow>
                       if data = [] then Dropped
                       else Yielded (fst (split path),
                              fst (splitext (snd (split path))) @ ''_allegato_'' @ str_nat (k + 1)
                                @ ''.'' @ resolve_ext data attachment, data))"
    by (simp add: decode_block_def resolve_nome_None [OF assms] split: prod.splits sum.splits)
next
  show "resolve_nome 1 ''invoice.xml'' attachment = ''invoice_allegato_2''"
    using resolve_nome_None [OF assms, of 1 "''invoice.xml''"] eval_splitext_invoice eval_str_1_plus_1 by simp
qed

text \<open>
  Claim C4. A payload that starts with the five bytes \<open>%PDF-\<close> gets the extension
  \<open>pdf\<close>, whatever the format tag says; the format tag, in lower case, is used only when
  the signature is not there, and \<open>formatoSconosciuto\<close> when there is no format tag either.
\<close>

theorem signature_before_format_tag:
  "decode_payload attachment = Inr data \<and> data \<noteq> [] \<longrightarrow>
     (take 5 data = ''%PDF-'' \<longrightarrow>
        decode_block idx (path, attachment)
          = Yielded (fst (split path), resolve_nome idx (snd (split path)) attachment @ ''.pdf'', data))
     \<and> (take 5 data \<noteq> ''%PDF-'' \<and> search (regex formato) attachment = Some g \<longrightarrow>
        decode_block idx (path, attachment)
          = Yielded (fst (split path), resolve_nome idx (snd (split path)) attachment @ ''.'' @ lower g, data))
     \<and> (take 5 data \<noteq> ''%PDF-'' \<and> search (regex formato) attachment = None \<longrightarrow>
        decode_block idx (path, attachment)
          = Yielded (fst (split path),
              resolve_nome idx (snd (split path)) attachment @ ''.formatoSconosciuto'', data))"
  by (simp add: decode_block_def resolve_ext_def split: prod.splits)


lemma eval_pdf_payload: "decode_payload ''<FormatoAttachment>TXT</FormatoAttachment><Attachment>JVBERi0xLjQK</Attachment>''
   = Inr ''%PDF-1.4
''" by code_simp
lemma eval_format_tag: "search (regex formato) ''<FormatoAttachment>TXT</FormatoAttachment><Attachment>JVBERi0xLjQK</Attachment>''
   = Some ''TXT''" by code_simp
lemma eval_name_fallback_1: "resolve_nome 0 ''a.xml'' ''<FormatoAttachment>TXT</FormatoAttachment><Attachment>JVBERi0xLjQK</Attachment>''
   = ''a_allegato_1''" by code_simp

theorem signature_before_format_tag_witness:
  "decode_payload ''<FormatoAttachment>TXT</FormatoAttachment><Attachment>JVBERi0xLjQK</Attachment>''
     = Inr ''%PDF-1.4
''
   \<and> search (regex formato) ''<FormatoAttachment>TXT</FormatoAttachment><Attachment>JVBERi0xLjQK</Attachment>''
     = Some ''TXT''
   \<and> decode_block 0 (''/d/a.xml'',
        ''<FormatoAttachment>TXT</FormatoAttachment><Attachment>JVBERi0xLjQK</Attachment>'')
     = Yielded (''/d'', ''a_allegato_1.pdf'', ''%PDF-1.4
'')"
  using signature_before_format_tag [of
      "''<FormatoAttachment>TXT</FormatoAttachment><Attachment>JVBERi0xLjQK</Attachment>''"
      "''%PDF-1.4
''" 0 "''/d/a.xml''" "''TXT''"] eval_pdf_payload eval_format_tag
  by (simp add: eval_split_a eval_name_fallback_1)

lemma eval_no_name_tag: "search (regex nome) ''<Attachment>QUJD</Attachment>'' = None" by code_simp
lemma eval_two_blocks: "list_attachments (''/d/invoice.xml'',
     ''<Allegati><Attachment>QUJD</Attachment></Allegati><Allegati><Attachment>QUJD</Attachment></Allegati>'')
   = [(''/d/invoice.xml'', ''<Attachment>QUJD</Attachment>''), (''/d/invoice.xml'', ''<Attachment>QUJD</Attachment>'')]"
  by code_simp
lemma eval_payload_abc: "decode_payload ''<Attachment>QUJD</Attachment>'' = Inr ''ABC''" by code_simp
lemma eval_ext_unknown: "resolve_ext ''ABC'' ''<Attachment>QUJD</Attachment>'' = ''formatoSconosciuto''" by code_simp
lemma eval_split_invoice: "split ''/d/invoice.xml'' = (''/d'', ''invoice.xml'')" by code_simp
lemma eval_str_2: "str_nat (Suc (Suc 0)) = ''2''" by code_simp

theorem fallback_name_witness:
  "search (regex nome) ''<Attachment>QUJD</Attachment>'' = None
   \<and> yield_decoded_attachment (list_attachments (''/d/invoice.xml'',
        ''<Allegati><Attachment>QUJD</Attachment></Allegati><Allegati><Attachment>QUJD</Attachment></Allegati>'')) ! 1
     = Yielded (''/d'', ''invoice_allegato_2.formatoSconosciuto'', ''ABC'')"
proof -
  have "yield_decoded_attachment (list_attachments (''/d/invoice.xml'',
        ''<Allegati><Attachment>QUJD</Attachment></Allegati><Allegati><Attachment>QUJD</Attachment></Allegati>'')) ! 1
     = Yielded (''/d'', ''invoice_allegato_2.formatoSconosciuto'', ''ABC'')"
    using fallback_name [OF eval_no_name_tag, where k = 1 and path = "''/d/invoice.xml''"
        and attachments = "list_attachments (''/d/invoice.xml'',
        ''<Allegati><Attachment>QUJD</Attachment></Allegati><Allegati><Attachment>QUJD</Attachment></Allegati>'')"]
    by (simp add: eval_two_blocks eval_payload_abc eval_ext_unknown eval_split_invoice eval_str_2 eval_splitext_invoice)
  then show ?thesis using eval_no_name_tag by simp
qed

section \<open>The writer: properties\<close>

lemma names_a_file_nonempty: "names_a_file path \<Longrightarrow> path \<noteq> []"
  by (auto simp: names_a_file_def components_def)

lemma write_attachment_failed:
  "write_bytes w (outpath_of a outdir) (if safety = ''low'' then ''wb'' else ''xb'') (snd (snd a)) = Inl ex
     \<Longrightarrow> write_attachment a outdir safety w = print_stderr (str_exn ex) w"
  by (simp add: write_attachment_def Let_def)

lemma write_attachment_done:
  "write_bytes w (outpath_of a outdir) (if safety = ''low'' then ''wb'' else ''xb'') (snd (snd a)) = Inr w'
     \<Longrightarrow> write_attachment a outdir safety w = w'"
  by (simp add: write_attachment_def Let_def)

lemma write_bytes_exclusive_exists:
  assumes "names_a_file p" "parent_of w p = Inr parent" "fs w parent = Some (Dir names pr pw)"
    and "fs w (join parent (last (components p))) = Some n"
  shows "write_bytes w p ''xb'' data = Inl (FileExistsError p)"
  using assms names_a_file_nonempty [OF assms(1)]
  by (cases n) (simp_all add: write_bytes_def names_a_file_def)

lemma write_bytes_truncate:
  assumes "names_a_file p" "parent_of w p = Inr parent" "fs w parent = Some (Dir names pr pw)"
    and "fs w (join parent (last (components p))) = Some (File old r True)"
  shows "write_bytes w p ''wb'' data
           = Inr (w\<lparr>fs := (fs w)(join parent (last (components p)) \<mapsto> File data r True)\<rparr>)"
  using assms names_a_file_nonempty [OF assms(1)]
  by (simp add: write_bytes_def names_a_file_def)

lemma write_bytes_create:
  assumes "names_a_file p" "parent_of w p = Inr parent" "fs w parent = Some (Dir names pr True)"
    and "fs w (join parent (last (components p))) = None"
  shows "write_bytes w p mode data
           = Inr (w\<lparr>fs := (fs w)(parent \<mapsto> Dir (names @ [last (components p)]) pr True,
                                  join parent (last (components p)) \<mapsto> File data True True)\<rparr>)"
  using assms names_a_file_nonempty [OF assms(1)]
  by (simp add: write_bytes_def names_a_file_def)

text \<open>
  Claim C6. The target path is resolved component by component to a directory and a last
  name. With \<open>safety = 'low'\<close> the writer opens the target with \<open>'wb'\<close> and replaces an
  existing writable file; with any other value it opens with \<open>'xb'\<close>, which fails with
  \<open>FileExistsError\<close> on an existing target and leaves the file system as it was. An absent
  target in a writable directory is created with the payload under either policy. A failed
  write prints the error and returns the world otherwise unchanged, and the attachments
  after it are still processed.
\<close>

theorem overwrite_policy:
  "(safety = ''low'' \<and> names_a_file (outpath_of a outdir)
      \<and> parent_of w (outpath_of a outdir) = Inr parent \<and> fs w parent = Some (Dir names pr pw)
      \<and> fs w (join parent (last (components (outpath_of a outdir)))) = Some (File old r True)
    \<longrightarrow> write_attachment a outdir safety w
         = w\<lparr>fs := (fs w)(join parent (last (components (outpath_of a outdir)))
                              \<mapsto> File (snd (snd a)) r True)\<rparr>)
   \<and> (safety \<noteq> ''low'' \<and> names_a_file (outpath_of a outdir)
      \<and> parent_of w (outpath_of a outdir) = Inr parent \<and> fs w parent = Some (Dir names pr pw)
      \<and> fs w (join parent (last (components (outpath_of a outdir)))) = Some n
    \<longrightarrow> write_attachment a outdir safety w
         = print_stderr (str_exn (FileExistsError (outpath_of a outdir))) w)
   \<and> (names_a_file (outpath_of a outdir)
      \<and> parent_of w (outpath_of a outdir) = Inr parent \<and> fs w parent = Some (Dir names pr True)
      \<and> fs w (join parent (last (components (outpath_of a outdir)))) = None
    \<longrightarrow> write_attachment a outdir safety w
         = w\<lparr>fs := (fs w)
               (parent \<mapsto> Dir (names @ [last (components (outpath_of a outdir))]) pr True,
                join parent (last (components (outpath_of a outdir)))
                  \<mapsto> File (snd (snd a)) True True)\<rparr>)
   \<and> (write_bytes w (outpath_of a outdir) (if safety = ''low'' then ''wb'' else ''xb'') (snd (snd a)) = Inl ex
    \<longrightarrow> write_attachment a outdir safety w = print_stderr (str_exn ex) w)
   \<and> consume outdir safety (Yielded a # steps) w
       = consume outdir safety steps (write_attachment a outdir safety w)"
proof (intro conjI impI)
  assume h: "safety = ''low'' \<and> names_a_file (outpath_of a outdir)
      \<and> parent_of w (outpath_of a outdir) = Inr parent \<and> fs w parent = Some (Dir names pr pw)
      \<and> fs w (join parent (last (components (outpath_of a outdir)))) = Some (File old r True)"
  then have "write_bytes w (outpath_of a outdir) ''wb'' (snd (snd a))
      = Inr (w\<lparr>fs := (fs w)(join parent (last (components (outpath_of a outdir)))
                              \<mapsto> File (snd (snd a)) r True)\<rparr>)"
    using write_bytes_truncate by blast
  with h show "write_attachment a outdir safety w
         = w\<lparr>fs := (fs w)(join parent (last (components (outpath_of a outdir)))
                              \<mapsto> File (snd (snd a)) r True)\<rparr>"
    by (simp add: write_attachment_def Let_def)
next
  assume h: "safety \<noteq> ''low'' \<and> names_a_file (outpath_of a outdir)
      \<and> parent_of w (outpath_of a outdir) = Inr parent \<and> fs w parent = Some (Dir names pr pw)
      \<and> fs w (join parent (last (components (outpath_of a outdir)))) = Some n"
  then have "write_bytes w (outpath_of a outdir) ''xb'' (snd (snd a))
      = Inl (FileExistsError (outpath_of a outdir))"
    using write_bytes_exclusive_exists by blast
  with h show "write_attachment a outdir safety w
         = print_stderr (str_exn (FileExistsError (outpath_of a outdir))) w"
    by (simp add: write_attachment_def Let_def)
next
  assume h: "names_a_file (outpath_of a outdir)
      \<and> parent_of w (outpath_of a outdir) = Inr parent \<and> fs w parent = Some (Dir names pr True)
      \<and> fs w (join parent (last (components (outpath_of a outdir)))) = None"
  then have "write_bytes w (outpath_of a outdir) (if safety = ''low'' then ''wb'' else ''xb'') (snd (snd a))
      = Inr (w\<lparr>fs := (fs w)
               (parent \<mapsto> Dir (names @ [last (components (outpath_of a outdir))]) pr True,
                join parent (last (components (outpath_of a outdir)))
                  \<mapsto> File (snd (snd a)) True True)\<rparr>)"
    using write_bytes_create by blast
  then show "write_attachment a outdir safety w
         = w\<lparr>fs := (fs w)
               (parent \<mapsto> Dir (names @ [last (components (outpath_of a outdir))]) pr True,
                join parent (last (components (outpath_of a outdir)))
                  \<mapsto> File (snd (snd a)) True True)\<rparr>"
    by (rule write_attachment_done)
next
  assume "write_bytes w (outpath_of a outdir) (if safety = ''low'' then ''wb'' else ''xb'') (snd (snd a)) = Inl ex"
  then show "write_attachment a outdir safety w = print_stderr (str_exn ex) w"
    by (rule write_attachment_failed)
next
  show "consume outdir safety (Yielded a # steps) w
       = consume outdir safety steps (write_attachment a outdir safety w)"
    by (simp add: consume_def)
qed

lemma eval_outpath_doc: "outpath_of (''/d'', ''doc.pdf'', ''new'') None = ''/d/doc.pdf''" by code_simp
lemma eval_outpath_fresh: "outpath_of (''/d'', ''fresh.pdf'', ''new'') None = ''/d/fresh.pdf''" by code_simp
lemma eval_outpath_dots: "outpath_of (''/d'', ''nosuch/../doc.pdf'', ''new'') None = ''/d/nosuch/../doc.pdf''"
  by code_simp
lemma eval_names_doc: "names_a_file ''/d/doc.pdf''" by code_simp
lemma eval_names_fresh: "names_a_file ''/d/fresh.pdf''" by code_simp
lemma eval_components_doc: "components ''/d/doc.pdf'' = ['''', ''d'', ''doc.pdf'']" by code_simp
lemma eval_components_fresh: "components ''/d/fresh.pdf'' = ['''', ''d'', ''fresh.pdf'']" by code_simp
lemma eval_join_doc: "join ''/d'' ''doc.pdf'' = ''/d/doc.pdf''" by code_simp
lemma eval_join_fresh: "join ''/d'' ''fresh.pdf'' = ''/d/fresh.pdf''" by code_simp
lemma eval_parent_doc: "parent_of disk ''/d/doc.pdf'' = Inr ''/d''" by code_simp
lemma eval_parent_fresh: "parent_of disk ''/d/fresh.pdf'' = Inr ''/d''" by code_simp
lemma eval_parent_dots:
  "parent_of disk ''/d/nosuch/../doc.pdf'' = Inl (FileNotFoundError ''/d/nosuch/../doc.pdf'')"
  by code_simp

lemma eval_write_dots:
  "write_bytes disk ''/d/nosuch/../doc.pdf'' ''wb'' ''new'' = Inl (FileNotFoundError ''/d/nosuch/../doc.pdf'')"
  by (simp add: write_bytes_def eval_parent_dots)

theorem overwrite_policy_witness:
  "names_a_file (outpath_of (''/d'', ''doc.pdf'', ''new'') None)
   \<and> parent_of disk (outpath_of (''/d'', ''doc.pdf'', ''new'') None) = Inr ''/d''
   \<and> fs disk ''/d'' = Some (Dir [''a.xml'', ''b.txt'', ''sub'', ''doc.pdf''] True True)
   \<and> fs disk ''/d/doc.pdf'' = Some (File ''old'' True True)
   \<and> write_attachment (''/d'', ''doc.pdf'', ''new'') None ''low'' disk
       = disk\<lparr>fs := (fs disk)(''/d/doc.pdf'' \<mapsto> File ''new'' True True)\<rparr>
   \<and> write_attachment (''/d'', ''doc.pdf'', ''new'') None ''max'' disk
       = print_stderr (str_exn (FileExistsError ''/d/doc.pdf'')) disk
   \<and> fs disk ''/d/fresh.pdf'' = None
   \<and> write_attachment (''/d'', ''fresh.pdf'', ''new'') None ''max'' disk
       = disk\<lparr>fs := (fs disk)
            (''/d'' \<mapsto> Dir [''a.xml'', ''b.txt'', ''sub'', ''doc.pdf'', ''fresh.pdf''] True True,
             ''/d/fresh.pdf'' \<mapsto> File ''new'' True True)\<rparr>
   \<and> write_attachment (''/d'', ''nosuch/../doc.pdf'', ''new'') None ''low'' disk
       = print_stderr (str_exn (FileNotFoundError ''/d/nosuch/../doc.pdf'')) disk
   \<and> consume None ''max'' [Yielded (''/d'', ''doc.pdf'', ''new''), Dropped] disk
       = consume None ''max'' [Dropped] (print_stderr (str_exn (FileExistsError ''/d/doc.pdf'')) disk)"
proof -
  have f: "fs disk ''/d/doc.pdf'' = Some (File ''old'' True True)"
    by (simp add: disk_def)
  have g: "fs disk ''/d/fresh.pdf'' = None"
    by (simp add: disk_def)
  have p: "fs disk ''/d'' = Some (Dir [''a.xml'', ''b.txt'', ''sub'', ''doc.pdf''] True True)"
    by (simp add: disk_def)
  note t = overwrite_policy [where a = "(''/d'', ''doc.pdf'', ''new'')" and outdir = None and w = disk
      and old = "''old''" and r = True and names = "[''a.xml'', ''b.txt'', ''sub'', ''doc.pdf'']"
      and pr = True and pw = True and n = "File ''old'' True True" and parent = "''/d''",
      unfolded eval_outpath_doc eval_components_doc]
  note u = overwrite_policy [where a = "(''/d'', ''fresh.pdf'', ''new'')" and outdir = None and w = disk
      and names = "[''a.xml'', ''b.txt'', ''sub'', ''doc.pdf'']"
      and pr = True and parent = "''/d''" and safety = "''max''",
      unfolded eval_outpath_fresh eval_components_fresh]
  note v = overwrite_policy [where a = "(''/d'', ''nosuch/../doc.pdf'', ''new'')" and outdir = None
      and w = disk and safety = "''low''" and ex = "FileNotFoundError ''/d/nosuch/../doc.pdf''",
      unfolded eval_outpath_dots]
  have a: "write_attachment (''/d'', ''doc.pdf'', ''new'') None ''low'' disk
       = disk\<lparr>fs := (fs disk)(''/d/doc.pdf'' \<mapsto> File ''new'' True True)\<rparr>"
    using t [where safety = "''low''"] f p eval_names_doc eval_parent_doc eval_join_doc by simp
  have b: "write_attachment (''/d'', ''doc.pdf'', ''new'') None ''max'' disk
       = print_stderr (str_exn (FileExistsError ''/d/doc.pdf'')) disk"
    using t [where safety = "''max''"] f p eval_names_doc eval_parent_doc eval_join_doc by simp
  have c: "consume None ''max'' [Yielded (''/d'', ''doc.pdf'', ''new''), Dropped] disk
       = consume None ''max'' [Dropped] (write_attachment (''/d'', ''doc.pdf'', ''new'') None ''max'' disk)"
    using t [where safety = "''max''" and steps = "[Dropped]"] by blast
  have d: "write_attachment (''/d'', ''fresh.pdf'', ''new'') None ''max'' disk
       = disk\<lparr>fs := (fs disk)
            (''/d'' \<mapsto> Dir [''a.xml'', ''b.txt'', ''sub'', ''doc.pdf'', ''fresh.pdf''] True True,
             ''/d/fresh.pdf'' \<mapsto> File ''new'' True True)\<rparr>"
    using u g p eval_names_fresh eval_parent_fresh eval_join_fresh by simp
  have e: "write_attachment (''/d'', ''nosuch/../doc.pdf'', ''new'') None ''low'' disk
       = print_stderr (str_exn (FileNotFoundError ''/d/nosuch/../doc.pdf'')) disk"
    using v eval_write_dots by simp
  show ?thesis
    using a b c d e f g p eval_names_doc eval_parent_doc by (simp add: eval_outpath_doc)
qed

section \<open>The enumerator and the exit status: properties\<close>

lemma files_listing:
  "listdir w (abspath w path) = Inr names \<Longrightarrow>
     files w path = (Inr (map (Listed (abspath w path)) names), w)"
  by (simp add: files_def Let_def)

lemma isfile_listdir:
  "isfile w p \<Longrightarrow> listdir w p = Inl (NotADirectoryError p)"
  by (auto simp: isfile_def listdir_def split: sum.splits node.splits)

lemma files_single:
  "isfile w (abspath w path) \<Longrightarrow> files w path = (Inr [Given (abspath w path)], w)"
  by (simp add: files_def Let_def isfile_listdir)

lemma yield_xml_files_listing:
  "listdir w (abspath w path) = Inr names \<Longrightarrow>
     yield_xml_files w path = Inr (listed_documents w (abspath w path) names)"
proof -
  assume h: "listdir w (abspath w path) = Inr names"
  have "(\<lambda>c. case next_file w c of Document file \<Rightarrow> [file] | _ \<Rightarrow> []) \<circ> Listed (abspath w path)
          = (\<lambda>i. if isfile w (join (abspath w path) i) \<and> endswith i ''.xml''
                        then (case read_text w (join (abspath w path) i) of
                                Inr xml \<Rightarrow> [(join (abspath w path) i, xml)] | Inl ex \<Rightarrow> [])
                        else [])"
    by (rule ext) (simp add: next_file_def selected_def split: sum.splits)
  then show ?thesis
    by (simp add: yield_xml_files_def files_listing [OF h] listed_documents_def)
qed

lemma listed_documents_set:
  "(f, xml) \<in> set (listed_documents w p names) \<longleftrightarrow>
     (\<exists>i \<in> set names. f = join p i \<and> endswith i ''.xml'' \<and> isfile w f \<and> read_text w f = Inr xml)"
proof
  assume "(f, xml) \<in> set (listed_documents w p names)"
  then show "\<exists>i \<in> set names. f = join p i \<and> endswith i ''.xml'' \<and> isfile w f \<and> read_text w f = Inr xml"
    by (auto simp: listed_documents_def split: if_splits sum.splits)
next
  assume "\<exists>i \<in> set names. f = join p i \<and> endswith i ''.xml'' \<and> isfile w f \<and> read_text w f = Inr xml"
  then obtain i where "i \<in> set names" "f = join p i" "endswith i ''.xml''" "isfile w (join p i)"
      "read_text w (join p i) = Inr xml"
    by blast
  then show "(f, xml) \<in> set (listed_documents w p names)"
    by (force simp: listed_documents_def)
qed

text \<open>
  Claim C7. For a directory that can be listed, the enumerator yields, in listing order, the
  entries of the listing that are regular files, have a name ending in \<open>.xml\<close> and can be
  read; each is the directory joined with a listed name, so nothing below a subdirectory is
  reached. For a path that is a regular file, that path is the only candidate, whatever its
  extension, and it is yielded when it can be read.
\<close>

theorem enumerated_files:
  "(listdir w (abspath w path) = Inr names \<longrightarrow>
      yield_xml_files w path = Inr (listed_documents w (abspath w path) names)
      \<and> (\<forall>f xml. (f, xml) \<in> set (listed_documents w (abspath w path) names) \<longleftrightarrow>
            (\<exists>i \<in> set names. f = join (abspath w path) i \<and> endswith i ''.xml'' \<and> isfile w f
                \<and> read_text w f = Inr xml)))
   \<and> (isfile w (abspath w path) \<longrightarrow>
        fst (files w path) = Inr [Given (abspath w path)]
        \<and> yield_xml_files w path
            = Inr (case read_text w (abspath w path) of
                     Inr xml \<Rightarrow> [(abspath w path, xml)]
                   | Inl ex \<Rightarrow> []))"
proof (intro conjI impI allI)
  assume "listdir w (abspath w path) = Inr names"
  then show "yield_xml_files w path = Inr (listed_documents w (abspath w path) names)"
    by (rule yield_xml_files_listing)
next
  fix f xml
  show "(f, xml) \<in> set (listed_documents w (abspath w path) names) \<longleftrightarrow>
            (\<exists>i \<in> set names. f = join (abspath w path) i \<and> endswith i ''.xml'' \<and> isfile w f
                \<and> read_text w f = Inr xml)"
    by (rule listed_documents_set)
next
  assume h: "isfile w (abspath w path)"
  show "fst (files w path) = Inr [Given (abspath w path)]"
    by (simp add: files_single [OF h])
  show "yield_xml_files w path
            = Inr (case read_text w (abspath w path) of
                     Inr xml \<Rightarrow> [(abspath w path, xml)]
                   | Inl ex \<Rightarrow> [])"
    by (simp add: yield_xml_files_def files_single [OF h] next_file_def selected_def split: sum.splits)
qed

lemma eval_abspath_d: "abspath disk ''/d'' = ''/d''"
  by (simp add: abspath_def disk_def) code_simp
lemma eval_abspath_b: "abspath disk ''/d/b.txt'' = ''/d/b.txt''"
  by (simp add: abspath_def disk_def) code_simp
lemma eval_listdir_d: "listdir disk ''/d'' = Inr [''a.xml'', ''b.txt'', ''sub'', ''doc.pdf'']"
  by (simp add: listdir_def stat_def eval_abspath_d) (simp add: disk_def)
lemma eval_isfile_b: "isfile disk ''/d/b.txt''"
  by (simp add: isfile_def stat_def eval_abspath_b) (simp add: disk_def)
lemma eval_read_b: "read_text disk ''/d/b.txt'' = Inr ''plain''"
  by (simp add: read_text_def stat_def eval_abspath_b) (simp add: disk_def)
lemma eval_listed_d:
  "listed_documents disk ''/d'' [''a.xml'', ''b.txt'', ''sub'', ''doc.pdf'']
     = [(''/d/a.xml'', ''<Allegati><Attachment>QUJD</Attachment></Allegati>'')]"
  by code_simp

theorem enumerated_files_witness:
  "listdir disk (abspath disk ''/d'') = Inr [''a.xml'', ''b.txt'', ''sub'', ''doc.pdf'']
   \<and> yield_xml_files disk ''/d'' = Inr [(''/d/a.xml'', ''<Allegati><Attachment>QUJD</Attachment></Allegati>'')]
   \<and> isfile disk (abspath disk ''/d/b.txt'')
   \<and> yield_xml_files disk ''/d/b.txt'' = Inr [(''/d/b.txt'', ''plain'')]"
proof -
  have a: "yield_xml_files disk ''/d'' = Inr [(''/d/a.xml'', ''<Allegati><Attachment>QUJD</Attachment></Allegati>'')]"
    using enumerated_files [of disk "''/d''" "[''a.xml'', ''b.txt'', ''sub'', ''doc.pdf'']"]
    by (simp add: eval_abspath_d eval_listdir_d eval_listed_d)
  have b: "yield_xml_files disk ''/d/b.txt'' = Inr [(''/d/b.txt'', ''plain'')]"
    using enumerated_files [of disk "''/d/b.txt''" "[]"]
    by (simp add: eval_abspath_b eval_isfile_b eval_read_b)
  show ?thesis using a b by (simp add: eval_abspath_d eval_listdir_d eval_abspath_b eval_isfile_b)
qed

lemma listdir_no_exit: "listdir w p \<noteq> Inl (SystemExit n)"
  by (auto simp: listdir_def stat_def missing_def split: sum.splits node.splits option.splits if_splits)

text \<open>
  The exit status in terms of what \<open>os.listdir\<close> does at the absolute path: 0 when it
  returns a listing or raises \<open>NotADirectoryError\<close>, 1 otherwise.
\<close>

theorem exit_status_of_main:
  "exit_status (fst (main path outdir safety w))
     = (case listdir w (abspath w path) of
          Inr names \<Rightarrow> 0
        | Inl (NotADirectoryError p) \<Rightarrow> 0
        | Inl ex \<Rightarrow> 1)
   \<and> (listdir w (abspath w path) = Inl (FileNotFoundError p) \<longrightarrow>
        main path outdir safety w
          = (Some (SystemExit 1), print_stderr (str_exn (FileNotFoundError p)) w))"
proof (intro conjI impI)
  show "exit_status (fst (main path outdir safety w))
     = (case listdir w (abspath w path) of
          Inr names \<Rightarrow> 0
        | Inl (NotADirectoryError p) \<Rightarrow> 0
        | Inl ex \<Rightarrow> 1)"
  proof (cases "listdir w (abspath w path)")
    case (Inl ex)
    then show ?thesis
      using listdir_no_exit [of w "abspath w path"]
      by (cases ex) (simp_all add: main_def files_def Let_def)
  next
    case (Inr names)
    then show ?thesis by (simp add: main_def files_def Let_def)
  qed
next
  assume "listdir w (abspath w path) = Inl (FileNotFoundError p)"
  then show "main path outdir safety w
          = (Some (SystemExit 1), print_stderr (str_exn (FileNotFoundError p)) w)"
    by (simp add: main_def files_def Let_def)
qed

lemma eval_abspath_nope: "abspath disk ''/nope'' = ''/nope''"
  by (simp add: abspath_def disk_def) code_simp
lemma eval_abspath_locked: "abspath disk ''/locked'' = ''/locked''"
  by (simp add: abspath_def disk_def) code_simp
lemma eval_listdir_nope: "listdir disk ''/nope'' = Inl (FileNotFoundError ''/nope'')"
  by (simp add: listdir_def stat_def eval_abspath_nope missing_def under_file_def) (simp add: disk_def, code_simp)
lemma eval_stat_locked: "stat disk ''/locked'' = Inr (Dir [] False True)"
  by (simp add: stat_def eval_abspath_locked) (simp add: disk_def)
lemma eval_listdir_locked: "listdir disk ''/locked'' = Inl (PermissionError ''/locked'')"
  by (simp add: listdir_def eval_stat_locked)

theorem exit_status_of_main_witness:
  "listdir disk (abspath disk ''/nope'') = Inl (FileNotFoundError ''/nope'')
   \<and> main ''/nope'' None ''max'' disk
       = (Some (SystemExit 1), print_stderr (str_exn (FileNotFoundError ''/nope'')) disk)
   \<and> exit_status (fst (main ''/nope'' None ''max'' disk)) = 1
   \<and> exit_status (fst (main ''/d'' None ''max'' disk)) = 0"
  using exit_status_of_main [of "''/nope''" None "''max''" disk "''/nope''"]
    exit_status_of_main [of "''/d''" None "''max''" disk "''/d''"]
  by (simp add: eval_abspath_nope eval_listdir_nope eval_abspath_d eval_listdir_d)

lemma eval_abspath_below_file: "abspath disk ''/d/b.txt/x'' = ''/d/b.txt/x''"
  by (simp add: abspath_def disk_def) code_simp

lemma eval_stat_below_file: "stat disk ''/d/b.txt/x'' = Inl (NotADirectoryError ''/d/b.txt/x'')"
  by (simp add: stat_def eval_abspath_below_file missing_def under_file_def) (simp add: disk_def, code_simp)

lemma eval_listdir_below_file: "listdir disk ''/d/b.txt/x'' = Inl (NotADirectoryError ''/d/b.txt/x'')"
  by (simp add: listdir_def eval_stat_below_file)

text \<open>
  Claim C8 is not met by the code at two inputs. The directory \<open>/locked\<close> exists but cannot
  be listed: \<open>os.listdir\<close> raises \<open>PermissionError\<close>, which neither handler of lines 94 to 98
  catches, and the status is 1 where the claim says 0. The path \<open>/d/b.txt/x\<close> does not exist
  (it lies below a regular file): \<open>os.listdir\<close> raises \<open>NotADirectoryError\<close>, the handler of
  line 94 takes the path for a file, and the status is 0 where the claim says 1.
\<close>

theorem exit_status_at_failing_inputs:
  "stat disk (abspath disk ''/locked'') = Inr (Dir [] False True)
   \<and> fst (main ''/locked'' None ''max'' disk) = Some (PermissionError ''/locked'')
   \<and> exit_status (fst (main ''/locked'' None ''max'' disk)) = 1
   \<and> stat disk (abspath disk ''/d/b.txt/x'') = Inl (NotADirectoryError ''/d/b.txt/x'')
   \<and> exit_status (fst (main ''/d/b.txt/x'' None ''max'' disk)) = 0"
  by (simp add: eval_abspath_locked eval_stat_locked main_def files_def eval_listdir_locked
        eval_abspath_below_file eval_stat_below_file eval_listdir_below_file)

section \<open>The matcher on the tags of the table\<close>

lemma rmatch_nil [simp]: "rmatch [] s = Some ([], s)"
  by (subst rmatch.simps) simp

lemma rmatch_lit_nil [simp]: "rmatch (Lit c # p) [] = None"
  by (subst rmatch.simps) simp

lemma rmatch_lit_cons [simp]:
  "rmatch (Lit c # p) (x # xs) = (if x = c then rmatch p xs else None)"
  by (subst rmatch.simps) simp

lemma rmatch_star_nil [simp]: "rmatch (Greedy_star cl # p) [] = rmatch p []"
  by (subst rmatch.simps) simp

lemma rmatch_star_cons [simp]:
  "rmatch (Greedy_star cl # p) (x # xs)
     = (if in_cls cl x
        then (case rmatch (Greedy_star cl # p) xs of Some r \<Rightarrow> Some r | None \<Rightarrow> rmatch p (x # xs))
        else rmatch p (x # xs))"
  by (subst rmatch.simps) simp

lemma rmatch_lazy_nil [simp]:
  "rmatch (Group_lazy cl lo hi # p) [] = (if lo = 0 then rmatch p [] else None)"
  by (subst rmatch.simps) (simp split: option.splits)

lemma rmatch_lazy_cons:
  "rmatch (Group_lazy cl lo hi # p) (x # xs)
     = (case (if lo = 0 then rmatch p (x # xs) else None) of
          Some r \<Rightarrow> Some r
        | None \<Rightarrow>
            if in_cls cl x \<and> hi \<noteq> Some 0 then
              map_option (\<lambda>(g, r). (x # g, r))
                (rmatch (Group_lazy cl (lo - 1) (map_option (\<lambda>h. h - 1) hi) # p) xs)
            else None)"
  by (subst rmatch.simps) (simp split: option.splits)

lemma rmatch_lits:
  "rmatch (map Lit name @ p) s
     = (if take (length name) s = name then rmatch p (drop (length name) s) else None)"
proof (induction name arbitrary: s)
  case Nil
  then show ?case by simp
next
  case (Cons c name)
  then show ?case by (cases s) auto
qed

lemma rmatch_star_skip:
  assumes "\<And>x s'. in_cls cl x \<Longrightarrow> rmatch p (x # s') = None"
  shows "rmatch (Greedy_star cl # p) s = rmatch p (dropWhile (in_cls cl) s)"
proof (induction s)
  case Nil
  then show ?case by simp
next
  case (Cons x s)
  then show ?case using assms by (simp split: option.splits)
qed

lemma not_space_lt: "\<not> is_space CHR ''<''" by (simp add: is_space_def code_def)
lemma not_space_gt: "\<not> is_space CHR ''>''" by (simp add: is_space_def code_def)
lemma not_space_slash: "\<not> is_space CHR ''/''" by (simp add: is_space_def code_def)

lemma in_cls_Space: "in_cls Space = is_space"
  by (rule ext) simp

lemma rmatch_lit:
  "rmatch (Lit c # p) s = (case s of [] \<Rightarrow> None | d # r \<Rightarrow> if d = c then rmatch p r else None)"
  by (cases s) simp_all

lemma rmatch_space_lit:
  assumes "\<not> is_space c"
  shows "rmatch (Greedy_star Space # Lit c # p) s
     = (case dropWhile is_space s of
          [] \<Rightarrow> None
        | d # r \<Rightarrow> if d = c then rmatch p r else None)"
proof -
  have "rmatch (Lit c # p) (x # s') = None" if "in_cls Space x" for x s'
    using that assms by auto
  then have "rmatch (Greedy_star Space # Lit c # p) s
          = rmatch (Lit c # p) (dropWhile (in_cls Space) s)"
    by (rule rmatch_star_skip)
  then show ?thesis
    by (simp only: in_cls_Space rmatch_lit)
qed

lemma rmatch_space_name:
  assumes "plain_name name"
  shows "rmatch (Greedy_star Space # map Lit name @ p) s
           = (if take (length name) (dropWhile is_space s) = name
              then rmatch p (drop (length name) (dropWhile is_space s)) else None)"
proof -
  from assms obtain c cs where n: "name = c # cs" and c: "\<not> is_space c"
    by (cases name) (auto simp: plain_name_def)
  have "rmatch (map Lit name @ p) (x # s') = None" if "in_cls Space x" for x s'
    using that n c by auto
  then have "rmatch (Greedy_star Space # map Lit name @ p) s
          = rmatch (map Lit name @ p) (dropWhile (in_cls Space) s)"
    by (rule rmatch_star_skip)
  then have "rmatch (Greedy_star Space # map Lit name @ p) s
          = rmatch (map Lit name @ p) (dropWhile is_space s)"
    by (simp only: in_cls_Space)
  then show ?thesis by (simp only: rmatch_lits)
qed

lemma rmatch_tag_open:
  assumes "plain_name name"
  shows "rmatch (tag_open name @ p) s
           = (case open_tag_at name s of None \<Rightarrow> None | Some r \<Rightarrow> rmatch p r)"
proof -
  have e: "tag_open name @ p
          = Lit CHR ''<'' # (Greedy_star Space # map Lit name @ (Greedy_star Space # Lit CHR ''>'' # p))"
    by (simp add: tag_open_def)
  show ?thesis
    unfolding e open_tag_at_def
    by (simp add: rmatch_lit rmatch_space_name [OF assms] rmatch_space_lit [OF not_space_gt]
          del: dropWhile_eq_Nil_conv rmatch_lit_cons rmatch_star_cons split: list.split)
qed

lemma rmatch_tag_close:
  assumes "plain_name name"
  shows "rmatch (tag_close name @ p) s
           = (case close_tag_at name s of None \<Rightarrow> None | Some r \<Rightarrow> rmatch p r)"
proof -
  have e: "tag_close name @ p
          = Lit CHR ''<'' # (Greedy_star Space # Lit CHR ''/''
              # (Greedy_star Space # map Lit name @ (Greedy_star Space # Lit CHR ''>'' # p)))"
    by (simp add: tag_close_def)
  show ?thesis
    unfolding e close_tag_at_def
    by (simp add: rmatch_lit rmatch_space_name [OF assms] rmatch_space_lit [OF not_space_gt]
          rmatch_space_lit [OF not_space_slash]
          del: dropWhile_eq_Nil_conv rmatch_lit_cons rmatch_star_cons split: list.split)
qed

lemma dropWhile_spaces:
  "list_all is_space w \<Longrightarrow> dropWhile is_space (w @ s) = dropWhile is_space s"
  by (simp add: dropWhile_append2 list_all_iff)

lemma open_tag_at_iff:
  assumes "plain_name name"
  shows "open_tag_at name s = Some r \<longleftrightarrow>
           (\<exists>w1 w2. list_all is_space w1 \<and> list_all is_space w2
               \<and> s = CHR ''<'' # w1 @ name @ w2 @ CHR ''>'' # r)"
proof
  assume h: "open_tag_at name s = Some r"
  then obtain r0 where s: "s = CHR ''<'' # r0"
    by (cases s) (auto simp: open_tag_at_def split: if_splits)
  define r1 where "r1 = dropWhile is_space r0"
  define r2 where "r2 = drop (length name) r1"
  from h s have c: "(if take (length name) r1 = name
          then (case dropWhile is_space r2 of [] \<Rightarrow> None
                | d # r' \<Rightarrow> if d = CHR ''>'' then Some r' else None)
          else None) = Some r"
    by (simp add: open_tag_at_def r1_def r2_def split: if_splits)
  have n: "take (length name) r1 = name"
    using c by (simp split: if_splits)
  have g: "dropWhile is_space r2 = CHR ''>'' # r"
    using c n by (cases "dropWhile is_space r2") (simp_all del: dropWhile_eq_Nil_conv split: if_splits)
  have a: "r0 = takeWhile is_space r0 @ r1" by (simp add: r1_def)
  have b: "r1 = name @ r2" using append_take_drop_id [of "length name" r1] n by (simp add: r2_def)
  have d: "r2 = takeWhile is_space r2 @ CHR ''>'' # r"
    using takeWhile_dropWhile_id [of is_space r2] g by simp
  have "s = CHR ''<'' # takeWhile is_space r0 @ name @ takeWhile is_space r2 @ CHR ''>'' # r"
    using s a b d by (metis append_assoc)
  moreover have "list_all is_space (takeWhile is_space x)" for x
    by (auto simp: list_all_iff dest: set_takeWhileD)
  ultimately show "\<exists>w1 w2. list_all is_space w1 \<and> list_all is_space w2
               \<and> s = CHR ''<'' # w1 @ name @ w2 @ CHR ''>'' # r"
    by blast
next
  assume "\<exists>w1 w2. list_all is_space w1 \<and> list_all is_space w2
               \<and> s = CHR ''<'' # w1 @ name @ w2 @ CHR ''>'' # r"
  then obtain w1 w2 where w: "list_all is_space w1" "list_all is_space w2"
      and s: "s = CHR ''<'' # w1 @ name @ w2 @ CHR ''>'' # r"
    by blast
  from assms obtain c cs where n: "name = c # cs" and c: "\<not> is_space c"
    by (cases name) (auto simp: plain_name_def)
  have 1: "dropWhile is_space (w1 @ name @ w2 @ CHR ''>'' # r) = name @ w2 @ CHR ''>'' # r"
    using w(1) n c by (simp add: dropWhile_spaces)
  have 2: "dropWhile is_space (w2 @ CHR ''>'' # r) = CHR ''>'' # r"
    using w(2) by (simp add: dropWhile_spaces not_space_gt)
  show "open_tag_at name s = Some r"
    by (simp add: open_tag_at_def s 1 2)
qed

lemma close_tag_at_iff:
  assumes "plain_name name"
  shows "close_tag_at name s = Some r \<longleftrightarrow>
           (\<exists>w0 w1 w2. list_all is_space w0 \<and> list_all is_space w1 \<and> list_all is_space w2
               \<and> s = CHR ''<'' # w0 @ CHR ''/'' # w1 @ name @ w2 @ CHR ''>'' # r)"
proof
  assume h: "close_tag_at name s = Some r"
  then obtain r0 where s: "s = CHR ''<'' # r0"
    by (cases s) (auto simp: close_tag_at_def split: if_splits)
  from h s obtain ra where a: "dropWhile is_space r0 = CHR ''/'' # ra"
    by (cases "dropWhile is_space r0")
       (simp_all add: close_tag_at_def del: dropWhile_eq_Nil_conv split: if_splits)
  define r1 where "r1 = dropWhile is_space ra"
  define r2 where "r2 = drop (length name) r1"
  from h s a have c: "(if take (length name) r1 = name
          then (case dropWhile is_space r2 of [] \<Rightarrow> None
                | d # r' \<Rightarrow> if d = CHR ''>'' then Some r' else None)
          else None) = Some r"
    by (simp add: close_tag_at_def r1_def r2_def split: if_splits)
  have n: "take (length name) r1 = name"
    using c by (simp split: if_splits)
  have g: "dropWhile is_space r2 = CHR ''>'' # r"
    using c n by (cases "dropWhile is_space r2") (simp_all del: dropWhile_eq_Nil_conv split: if_splits)
  have a0: "r0 = takeWhile is_space r0 @ CHR ''/'' # ra"
    using takeWhile_dropWhile_id [of is_space r0] a by simp
  have a1: "ra = takeWhile is_space ra @ r1" by (simp add: r1_def)
  have b: "r1 = name @ r2" using append_take_drop_id [of "length name" r1] n by (simp add: r2_def)
  have d: "r2 = takeWhile is_space r2 @ CHR ''>'' # r"
    using takeWhile_dropWhile_id [of is_space r2] g by simp
  have "s = CHR ''<'' # takeWhile is_space r0 @ CHR ''/'' # takeWhile is_space ra @ name
      @ takeWhile is_space r2 @ CHR ''>'' # r"
    using s a0 a1 b d by (metis append_assoc append_Cons)
  moreover have "list_all is_space (takeWhile is_space x)" for x
    by (auto simp: list_all_iff dest: set_takeWhileD)
  ultimately show "\<exists>w0 w1 w2. list_all is_space w0 \<and> list_all is_space w1 \<and> list_all is_space w2
               \<and> s = CHR ''<'' # w0 @ CHR ''/'' # w1 @ name @ w2 @ CHR ''>'' # r"
    by blast
next
  assume "\<exists>w0 w1 w2. list_all is_space w0 \<and> list_all is_space w1 \<and> list_all is_space w2
               \<and> s = CHR ''<'' # w0 @ CHR ''/'' # w1 @ name @ w2 @ CHR ''>'' # r"
  then obtain w0 w1 w2 where w: "list_all is_space w0" "list_all is_space w1" "list_all is_space w2"
      and s: "s = CHR ''<'' # w0 @ CHR ''/'' # w1 @ name @ w2 @ CHR ''>'' # r"
    by blast
  from assms obtain c cs where n: "name = c # cs" and c: "\<not> is_space c"
    by (cases name) (auto simp: plain_name_def)
  have 0: "dropWhile is_space (w0 @ CHR ''/'' # w1 @ name @ w2 @ CHR ''>'' # r)
             = CHR ''/'' # w1 @ name @ w2 @ CHR ''>'' # r"
    using w(1) by (simp add: dropWhile_spaces not_space_slash)
  have 1: "dropWhile is_space (w1 @ name @ w2 @ CHR ''>'' # r) = name @ w2 @ CHR ''>'' # r"
    using w(2) n c by (simp add: dropWhile_spaces)
  have 2: "dropWhile is_space (w2 @ CHR ''>'' # r) = CHR ''>'' # r"
    using w(3) by (simp add: dropWhile_spaces not_space_gt)
  show "close_tag_at name s = Some r"
    by (simp add: close_tag_at_def s 0 1 2)
qed

lemma open_tag_at_append:
  assumes "plain_name name" "open_tag_at name t = Some z"
  shows "open_tag_at name (t @ v) = Some (z @ v)"
proof -
  from assms obtain w1 w2 where "list_all is_space w1" "list_all is_space w2"
      "t = CHR ''<'' # w1 @ name @ w2 @ CHR ''>'' # z"
    by (auto simp: open_tag_at_iff)
  then have "list_all is_space w1 \<and> list_all is_space w2
      \<and> t @ v = CHR ''<'' # w1 @ name @ w2 @ CHR ''>'' # (z @ v)"
    by simp
  then show ?thesis using assms(1) open_tag_at_iff by blast
qed

lemma close_tag_at_append:
  assumes "plain_name name" "close_tag_at name t = Some z"
  shows "close_tag_at name (t @ v) = Some (z @ v)"
proof -
  from assms obtain w0 w1 w2 where "list_all is_space w0" "list_all is_space w1" "list_all is_space w2"
      "t = CHR ''<'' # w0 @ CHR ''/'' # w1 @ name @ w2 @ CHR ''>'' # z"
    by (auto simp: close_tag_at_iff)
  then have "list_all is_space w0 \<and> list_all is_space w1 \<and> list_all is_space w2
      \<and> t @ v = CHR ''<'' # w0 @ CHR ''/'' # w1 @ name @ w2 @ CHR ''>'' # (z @ v)"
    by simp
  then show ?thesis using assms(1) close_tag_at_iff by blast
qed

text \<open>A tag has its only \<open><\<close> in front, so a tag that starts before a \<open><\<close> ends before it.\<close>

lemma tag_inside:
  assumes "u @ v = CHR ''<'' # t @ r" "CHR ''<'' \<notin> set t" "u \<noteq> []" "v = [] \<or> hd v = CHR ''<''"
  shows "\<exists>z. u = CHR ''<'' # t @ z \<and> r = z @ v"
proof -
  from assms(1,3) obtain u' where u: "u = CHR ''<'' # u'" and e: "u' @ v = t @ r"
    by (cases u) auto
  from e have "\<exists>z. (u' = t @ z \<and> z @ v = r) \<or> (u' @ z = t \<and> v = z @ r)"
    by (simp add: append_eq_append_conv2)
  then consider z where "u' = t @ z" "z @ v = r" | z where "u' @ z = t" "v = z @ r" "z \<noteq> []"
    by (metis append_Nil append_Nil2)
  then show ?thesis
  proof cases
    case 1
    then show ?thesis using u by auto
  next
    case 2
    then have "hd v = hd z" "v \<noteq> []" by auto
    with assms(4) have "hd z = CHR ''<''" by auto
    with 2 have "CHR ''<'' \<in> set z" using hd_in_set [of z] by simp
    with 2 have "CHR ''<'' \<in> set t" by auto
    with assms(2) show ?thesis by simp
  qed
qed

lemma open_tag_inside:
  assumes "plain_name name" "open_tag_at name (u @ v) = Some r" "u \<noteq> []" "v = [] \<or> hd v = CHR ''<''"
  shows "open_tag_at name u \<noteq> None"
proof -
  from assms obtain w1 w2 where w: "list_all is_space w1" "list_all is_space w2"
      and e: "u @ v = CHR ''<'' # (w1 @ name @ w2 @ [CHR ''>'']) @ r"
    by (auto simp: open_tag_at_iff)
  have "CHR ''<'' \<notin> set (w1 @ name @ w2 @ [CHR ''>''])"
    using w assms(1) not_space_lt by (auto simp: plain_name_def list_all_iff)
  from tag_inside [OF e this assms(3,4)] obtain z where "u = CHR ''<'' # w1 @ name @ w2 @ CHR ''>'' # z"
    by auto
  with w have "open_tag_at name u = Some z" using assms(1) open_tag_at_iff by blast
  then show ?thesis by simp
qed

lemma close_tag_inside:
  assumes "plain_name name" "close_tag_at name (u @ v) = Some r" "u \<noteq> []" "v = [] \<or> hd v = CHR ''<''"
  shows "close_tag_at name u \<noteq> None"
proof -
  from assms obtain w0 w1 w2 where w: "list_all is_space w0" "list_all is_space w1" "list_all is_space w2"
      and e: "u @ v = CHR ''<'' # (w0 @ CHR ''/'' # w1 @ name @ w2 @ [CHR ''>'']) @ r"
    by (auto simp: close_tag_at_iff)
  have "CHR ''<'' \<notin> set (w0 @ CHR ''/'' # w1 @ name @ w2 @ [CHR ''>''])"
    using w assms(1) not_space_lt by (auto simp: plain_name_def list_all_iff)
  from tag_inside [OF e this assms(3,4)] obtain z
    where "u = CHR ''<'' # w0 @ CHR ''/'' # w1 @ name @ w2 @ CHR ''>'' # z"
    by auto
  with w have "close_tag_at name u = Some z" using assms(1) close_tag_at_iff by blast
  then show ?thesis by simp
qed

lemma plain_Allegati: "plain_name ''Allegati''"
  by (simp add: plain_name_def is_space_def code_def)

lemma open_tag_at_Nil [simp]: "open_tag_at name [] = None"
  by (simp add: open_tag_at_def)

lemma close_tag_at_Nil [simp]: "close_tag_at name [] = None"
  by (simp add: close_tag_at_def)

lemma open_tag_at_hd: "open_tag_at name s = Some r \<Longrightarrow> s \<noteq> [] \<and> hd s = CHR ''<''"
  by (cases s) (auto simp: open_tag_at_def split: if_splits)

lemma close_tag_at_hd: "close_tag_at name s = Some r \<Longrightarrow> s \<noteq> [] \<and> hd s = CHR ''<''"
  by (cases s) (auto simp: close_tag_at_def split: if_splits)

lemma rmatch_lazy0:
  "rmatch (Group_lazy cl 0 None # p) s
     = (case rmatch p s of
          Some r \<Rightarrow> Some r
        | None \<Rightarrow>
            (case s of
               [] \<Rightarrow> None
             | x # xs \<Rightarrow>
                 if in_cls cl x
                 then map_option (\<lambda>(g, r). (x # g, r)) (rmatch (Group_lazy cl 0 None # p) xs)
                 else None))"
  by (cases s) (simp_all add: rmatch_lazy_cons split: option.splits)

text \<open>The lazy group followed by the closing tag stops at the first closing tag.\<close>

lemma rmatch_body:
  assumes "plain_name name" "\<not> occurs_close name body" "close_tag_at name cls = Some []"
    and "\<forall>x \<in> set body. in_cls cl x"
  shows "rmatch (Group_lazy cl 0 None # tag_close name) (body @ cls @ rest) = Some (body, rest)"
  using assms(2,4)
proof (induction body)
  case Nil
  have "close_tag_at name (cls @ rest) = Some rest"
    using close_tag_at_append [OF assms(1,3), of rest] by simp
  then have "rmatch (tag_close name @ []) (cls @ rest) = Some ([], rest)"
    by (simp only: rmatch_tag_close [OF assms(1)] option.case rmatch_nil)
  then show ?case
    by (subst rmatch_lazy0) simp
next
  case (Cons x body)
  have v: "cls @ rest = [] \<or> hd (cls @ rest) = CHR ''<''"
    using close_tag_at_hd [OF assms(3)] by simp
  have "close_tag_at name ((x # body) @ cls @ rest) = None"
  proof (rule ccontr)
    assume "close_tag_at name ((x # body) @ cls @ rest) \<noteq> None"
    then obtain r where "close_tag_at name ((x # body) @ cls @ rest) = Some r" by blast
    from close_tag_inside [OF assms(1) this _ v] have "close_tag_at name (x # body) \<noteq> None"
      by simp
    with Cons.prems show False by simp
  qed
  then have "rmatch (tag_close name @ []) (x # body @ cls @ rest) = None"
    by (simp only: rmatch_tag_close [OF assms(1)] option.case append_Cons)
  moreover have "rmatch (Group_lazy cl 0 None # tag_close name) (body @ cls @ rest) = Some (body, rest)"
    using Cons by simp
  moreover have "in_cls cl x" using Cons.prems by simp
  ultimately show ?case
    by (subst rmatch_lazy0) simp
qed

lemma findall_from_skip: "findall_from p (length u) (u @ s) = findall_from p 0 s"
  by (induction u) simp_all

text \<open>No match starts inside a gap that has no opening tag.\<close>

lemma findall_gap:
  assumes "plain_name name" "\<not> occurs_open name gap" "rest = [] \<or> hd rest = CHR ''<''"
  shows "findall_from (tag_open name @ p) 0 (gap @ rest) = findall_from (tag_open name @ p) 0 rest"
  using assms(2)
proof (induction gap)
  case Nil
  then show ?case by simp
next
  case (Cons x gap)
  have "open_tag_at name ((x # gap) @ rest) = None"
  proof (rule ccontr)
    assume "open_tag_at name ((x # gap) @ rest) \<noteq> None"
    then obtain r where "open_tag_at name ((x # gap) @ rest) = Some r" by blast
    from open_tag_inside [OF assms(1) this _ assms(3)] have "open_tag_at name (x # gap) \<noteq> None"
      by simp
    with Cons.prems show False by simp
  qed
  then have "rmatch (tag_open name @ p) (x # gap @ rest) = None"
    by (simp only: rmatch_tag_open [OF assms(1)] option.case append_Cons)
  then show ?case using Cons by simp
qed

lemma search_gap:
  assumes "plain_name name" "\<not> occurs_open name gap" "rest = [] \<or> hd rest = CHR ''<''"
  shows "search (tag_open name @ p) (gap @ rest) = search (tag_open name @ p) rest"
  using assms(2)
proof (induction gap)
  case Nil
  then show ?case by simp
next
  case (Cons x gap)
  have "open_tag_at name ((x # gap) @ rest) = None"
  proof (rule ccontr)
    assume "open_tag_at name ((x # gap) @ rest) \<noteq> None"
    then obtain r where "open_tag_at name ((x # gap) @ rest) = Some r" by blast
    from open_tag_inside [OF assms(1) this _ assms(3)] have "open_tag_at name (x # gap) \<noteq> None"
      by simp
    with Cons.prems show False by simp
  qed
  then have "rmatch (tag_open name @ p) (x # gap @ rest) = None"
    by (simp only: rmatch_tag_open [OF assms(1)] option.case append_Cons)
  then show ?case using Cons by simp
qed

lemma rmatch_tag_open_Nil: "rmatch (tag_open name @ p) [] = None"
  by (simp add: tag_open_def)

lemma findall_tail:
  assumes "plain_name name" "\<not> occurs_open name tail"
  shows "findall_from (tag_open name @ p) 0 tail = []"
proof -
  have "findall_from (tag_open name @ p) 0 (tail @ []) = findall_from (tag_open name @ p) 0 []"
    by (rule findall_gap [OF assms]) simp
  then show ?thesis by (simp add: rmatch_tag_open_Nil)
qed

text \<open>One container: the match starts at its opening tag and captures its body.\<close>

lemma rmatch_container:
  assumes "plain_name name" "open_tag_at name opn = Some []" "\<not> occurs_close name body"
    "close_tag_at name cls = Some []" "\<forall>x \<in> set body. in_cls cl x"
  shows "rmatch (tag_open name @ Group_lazy cl 0 None # tag_close name) (opn @ body @ cls @ rest)
           = Some (body, rest)"
proof -
  have "open_tag_at name (opn @ body @ cls @ rest) = Some (body @ cls @ rest)"
    using open_tag_at_append [OF assms(1,2), of "body @ cls @ rest"] by simp
  then show ?thesis
    by (simp only: rmatch_tag_open [OF assms(1)] option.case rmatch_body [OF assms(1,3,4,5)])
qed

lemma findall_container:
  assumes "plain_name name" "open_tag_at name opn = Some []" "\<not> occurs_close name body"
    "close_tag_at name cls = Some []" "\<forall>x \<in> set body. in_cls cl x"
  shows "findall_from (tag_open name @ Group_lazy cl 0 None # tag_close name) 0 (opn @ body @ cls @ rest)
           = body # findall_from (tag_open name @ Group_lazy cl 0 None # tag_close name) 0 rest"
proof -
  from open_tag_at_hd [OF assms(2)] obtain x xs where o: "opn = x # xs"
    by (cases opn) auto
  have m: "rmatch (tag_open name @ Group_lazy cl 0 None # tag_close name) (x # xs @ body @ cls @ rest)
           = Some (body, rest)"
    using rmatch_container [OF assms, of rest] o by simp
  have "length (xs @ body @ cls @ rest) - length rest = length (xs @ body @ cls)"
    by simp
  moreover have "findall_from (tag_open name @ Group_lazy cl 0 None # tag_close name)
      (length (xs @ body @ cls)) ((xs @ body @ cls) @ rest)
      = findall_from (tag_open name @ Group_lazy cl 0 None # tag_close name) 0 rest"
    by (rule findall_from_skip)
  ultimately show ?thesis
    using m o by simp
qed

lemma findall_document:
  assumes "plain_name name" "well_formed name segs tail"
  shows "findall_from (tag_open name @ Group_lazy Dot_all 0 None # tag_close name) 0 (document segs tail)
           = map (\<lambda>(gap, opn, body, cls). body) segs"
  using assms(2)
proof (induction segs)
  case Nil
  then show ?case
    using findall_tail [OF assms(1)] by (simp add: well_formed_def)
next
  case (Cons seg segs)
  obtain gap opn body cls where seg: "seg = (gap, opn, body, cls)"
    by (cases seg) auto
  from Cons.prems seg have g: "\<not> occurs_open name gap" and o: "open_tag_at name opn = Some []"
      and b: "\<not> occurs_close name body" and c: "close_tag_at name cls = Some []"
      and w: "well_formed name segs tail"
    by (auto simp: well_formed_def)
  have h: "opn @ body @ cls @ document segs tail = []
            \<or> hd (opn @ body @ cls @ document segs tail) = CHR ''<''"
    using open_tag_at_hd [OF o] by simp
  have "findall_from (tag_open name @ Group_lazy Dot_all 0 None # tag_close name) 0
          (gap @ opn @ body @ cls @ document segs tail)
        = findall_from (tag_open name @ Group_lazy Dot_all 0 None # tag_close name) 0
          (opn @ body @ cls @ document segs tail)"
    by (rule findall_gap [OF assms(1) g h])
  also have "\<dots> = body # findall_from (tag_open name @ Group_lazy Dot_all 0 None # tag_close name) 0
          (document segs tail)"
    by (rule findall_container [OF assms(1) o b c]) simp
  finally show ?case
    using Cons.IH [OF w] seg by simp
qed

text \<open>
  Claim C1. For a document laid out as N containers (gaps without an opening \<open>Allegati\<close> tag,
  tags with any whitespace around the name, bodies without a closing tag but with any other
  characters, line feeds included), \<open>list_attachments\<close> returns the N bodies in order, each
  paired with the document's path; with no container it returns the empty list. The first
  closing tag ends a body, and tag names are compared character by character.
\<close>

theorem locator_finds_every_container:
  assumes "well_formed ''Allegati'' segs tail"
  shows "list_attachments (path, document segs tail)
           = map (\<lambda>(gap, opn, body, cls). (path, body)) segs
         \<and> length (list_attachments (path, document segs tail)) = length segs"
proof -
  have "findall (regex allegati) (document segs tail) = map (\<lambda>(gap, opn, body, cls). body) segs"
    using findall_document [OF plain_Allegati assms] by (simp add: findall_def)
  then have "list_attachments (path, document segs tail)
           = map (\<lambda>(gap, opn, body, cls). (path, body)) segs"
    by (simp add: list_attachments_def case_prod_beta)
  then show ?thesis by simp
qed

lemma eval_two_containers_well_formed:
  "well_formed ''Allegati'' two_containers ''<allegati>z</allegati></Fattura>''"
  by code_simp

lemma eval_two_containers_document:
  "document two_containers ''<allegati>z</allegati></Fattura>''
     = ''<?xml?><Fattura>< Allegati >a'' @ [CHR 0x0A] @ ''b</ Allegati >'' @ [CHR 0x0A]
         @ ''<Allegati></Allegati><allegati>z</allegati></Fattura>''"
  by code_simp

theorem locator_finds_every_container_witness:
  "well_formed ''Allegati'' two_containers ''<allegati>z</allegati></Fattura>''
   \<and> list_attachments (''/d/a.xml'',
        ''<?xml?><Fattura>< Allegati >a'' @ [CHR 0x0A] @ ''b</ Allegati >'' @ [CHR 0x0A]
         @ ''<Allegati></Allegati><allegati>z</allegati></Fattura>'')
     = [(''/d/a.xml'', [CHR ''a'', CHR 0x0A, CHR ''b'']), (''/d/a.xml'', [])]"
proof -
  have "list_attachments (''/d/a.xml'', document two_containers ''<allegati>z</allegati></Fattura>'')
     = map (\<lambda>(gap, opn, body, cls). (''/d/a.xml'', body)) two_containers"
    using locator_finds_every_container [OF eval_two_containers_well_formed, of "''/d/a.xml''"]
    by blast
  moreover have "map (\<lambda>(gap, opn, body, cls). (''/d/a.xml'', body)) two_containers
      = [(''/d/a.xml'', [CHR ''a'', CHR 0x0A, CHR ''b'']), (''/d/a.xml'', [])]"
    by (simp add: two_containers_def)
  ultimately show ?thesis
    using eval_two_containers_well_formed by (simp only: eval_two_containers_document)
qed

section \<open>The name tag: properties\<close>

lemma plain_NomeAttachment: "plain_name ''NomeAttachment''"
  by (simp add: plain_name_def is_space_def code_def)

lemma search_None_iff:
  "search p s = None \<longleftrightarrow> (\<forall>k \<le> length s. rmatch p (drop k s) = None)"
proof (induction s)
  case Nil
  then show ?case by simp
next
  case (Cons x s)
  have "(\<forall>k \<le> length (x # s). rmatch p (drop k (x # s)) = None)
          \<longleftrightarrow> rmatch p (x # s) = None \<and> (\<forall>k \<le> length s. rmatch p (drop k s) = None)"
  proof
    assume h: "\<forall>k \<le> length (x # s). rmatch p (drop k (x # s)) = None"
    have "rmatch p (drop 0 (x # s)) = None" using h by blast
    moreover have "rmatch p (drop k s) = None" if "k \<le> length s" for k
      using h [rule_format, of "Suc k"] that by simp
    ultimately show "rmatch p (x # s) = None \<and> (\<forall>k \<le> length s. rmatch p (drop k s) = None)"
      by simp
  next
    assume h: "rmatch p (x # s) = None \<and> (\<forall>k \<le> length s. rmatch p (drop k s) = None)"
    show "\<forall>k \<le> length (x # s). rmatch p (drop k (x # s)) = None"
    proof (intro allI impI)
      fix k assume "k \<le> length (x # s)"
      then show "rmatch p (drop k (x # s)) = None"
        using h by (cases k) auto
    qed
  qed
  note b = this
  have a: "search p (x # s) = None \<longleftrightarrow> rmatch p (x # s) = None \<and> search p s = None"
    by (cases "rmatch p (x # s)") auto
  show ?case by (simp only: a Cons.IH b)
qed

text \<open>What a successful match says about the text a greedy star and a lazy group consumed.\<close>

lemma rmatch_star_sound:
  "rmatch (Greedy_star cl # p) s = Some res \<Longrightarrow>
     \<exists>w s'. s = w @ s' \<and> (\<forall>x \<in> set w. in_cls cl x) \<and> rmatch p s' = Some res"
proof (induction s)
  case Nil
  then show ?case by simp
next
  case (Cons x s)
  show ?case
  proof (cases "in_cls cl x \<and> rmatch (Greedy_star cl # p) s \<noteq> None")
    case True
    with Cons.prems have "rmatch (Greedy_star cl # p) s = Some res"
      by (auto split: option.splits)
    from Cons.IH [OF this] obtain w s' where "s = w @ s'" "\<forall>x \<in> set w. in_cls cl x"
        "rmatch p s' = Some res"
      by blast
    with True have "x # s = (x # w) @ s' \<and> (\<forall>y \<in> set (x # w). in_cls cl y) \<and> rmatch p s' = Some res"
      by simp
    then show ?thesis by (intro exI [of _ "x # w"] exI [of _ s'])
  next
    case False
    with Cons.prems have "rmatch p (x # s) = Some res"
      by (auto split: option.splits if_splits)
    then have "x # s = [] @ (x # s) \<and> (\<forall>y \<in> set []. in_cls cl y) \<and> rmatch p (x # s) = Some res"
      by simp
    then show ?thesis by (intro exI [of _ "[]"] exI [of _ "x # s"])
  qed
qed

lemma rmatch_lazy_sound:
  "rmatch (Group_lazy cl lo hi # p) s = Some (g, r) \<Longrightarrow>
     \<exists>w s' g'. s = w @ s' \<and> (\<forall>x \<in> set w. in_cls cl x) \<and> lo \<le> length w
        \<and> (\<forall>h. hi = Some h \<longrightarrow> length w \<le> h) \<and> g = w @ g' \<and> rmatch p s' = Some (g', r)"
proof (induction s arbitrary: lo hi g)
  case Nil
  then have "lo = 0 \<and> rmatch p [] = Some (g, r)"
    by (simp split: if_splits)
  then have "[] = [] @ [] \<and> (\<forall>x \<in> set []. in_cls cl x) \<and> lo \<le> length ([]::string)
        \<and> (\<forall>h. hi = Some h \<longrightarrow> length ([]::string) \<le> h) \<and> g = [] @ g \<and> rmatch p [] = Some (g, r)"
    by simp
  then show ?case by (intro exI [of _ "[]"] exI [of _ g])
next
  case (Cons x s)
  show ?case
  proof (cases "lo = 0 \<and> rmatch p (x # s) \<noteq> None")
    case True
    with Cons.prems have "rmatch p (x # s) = Some (g, r)"
      by (auto simp: rmatch_lazy_cons)
    with True have "x # s = [] @ (x # s) \<and> (\<forall>y \<in> set []. in_cls cl y) \<and> lo \<le> length ([]::string)
        \<and> (\<forall>h. hi = Some h \<longrightarrow> length ([]::string) \<le> h) \<and> g = [] @ g
        \<and> rmatch p (x # s) = Some (g, r)"
      by simp
    then show ?thesis by (intro exI [of _ "[]"] exI [of _ "x # s"] exI [of _ g])
  next
    case False
    have "lo = 0 \<longrightarrow> rmatch p (x # s) = None" using False by blast
    then have n: "(if lo = 0 then rmatch p (x # s) else None) = None"
      by simp
    from Cons.prems have c: "in_cls cl x" "hi \<noteq> Some 0"
      and m: "map_option (\<lambda>(g, r). (x # g, r))
                (rmatch (Group_lazy cl (lo - 1) (map_option (\<lambda>h. h - 1) hi) # p) s) = Some (g, r)"
      unfolding rmatch_lazy_cons n by (auto split: if_splits)
    from m obtain g1 where g1: "rmatch (Group_lazy cl (lo - 1) (map_option (\<lambda>h. h - 1) hi) # p) s = Some (g1, r)"
        and g: "g = x # g1"
      by auto
    from Cons.IH [OF g1] obtain w s' g' where w: "s = w @ s'" "\<forall>x \<in> set w. in_cls cl x"
        "lo - 1 \<le> length w" "\<forall>h. map_option (\<lambda>h. h - 1) hi = Some h \<longrightarrow> length w \<le> h"
        "g1 = w @ g'" "rmatch p s' = Some (g', r)"
      by blast
    have "\<forall>h. hi = Some h \<longrightarrow> length (x # w) \<le> h"
    proof (intro allI impI)
      fix h assume h: "hi = Some h"
      with c(2) have "0 < h" by simp
      moreover from w(4) h have "length w \<le> h - 1" by simp
      ultimately show "length (x # w) \<le> h" by simp
    qed
    with w c g have "x # s = (x # w) @ s' \<and> (\<forall>y \<in> set (x # w). in_cls cl y) \<and> lo \<le> length (x # w)
        \<and> (\<forall>h. hi = Some h \<longrightarrow> length (x # w) \<le> h) \<and> g = (x # w) @ g'
        \<and> rmatch p s' = Some (g', r)"
      by auto
    then show ?thesis by (intro exI [of _ "x # w"] exI [of _ s'] exI [of _ g'])
  qed
qed

lemma length_strip_le:
  assumes "\<forall>x \<in> set w1. is_space x" "\<forall>x \<in> set w2. is_space x"
  shows "length (strip (w1 @ g @ w2)) \<le> length g"
proof -
  have 1: "dropWhile is_space (w1 @ g @ w2) = dropWhile is_space (g @ w2)"
    using assms(1) by (simp add: dropWhile_append2)
  show ?thesis
  proof (cases "\<forall>x \<in> set g. is_space x")
    case True
    then have e: "dropWhile is_space (g @ w2) = []"
      using assms(2) by auto
    show ?thesis unfolding strip_def 1 e by simp
  next
    case False
    then obtain y where "y \<in> set g" "\<not> is_space y" by blast
    then have "dropWhile is_space (g @ w2) = dropWhile is_space g @ w2"
      by (rule dropWhile_append1)
    then have "strip (w1 @ g @ w2) = rev (dropWhile is_space (rev w2 @ rev (dropWhile is_space g)))"
      by (simp add: strip_def 1)
    also have "dropWhile is_space (rev w2 @ rev (dropWhile is_space g))
                 = dropWhile is_space (rev (dropWhile is_space g))"
      by (rule dropWhile_append2) (use assms(2) in auto)
    finally have "length (strip (w1 @ g @ w2)) = length (dropWhile is_space (rev (dropWhile is_space g)))"
      by simp
    also have "\<dots> \<le> length (rev (dropWhile is_space g))" by (rule length_dropWhile_le)
    also have "\<dots> \<le> length g" by (simp add: length_dropWhile_le)
    finally show ?thesis .
  qed
qed

text \<open>The middle of the name pattern cannot bridge a content that is too long or only line feeds.\<close>

lemma name_content_no_match:
  assumes "plain_name name" "close_positions name rest = [j]"
    and "(\<forall>c \<in> set (take j rest). c = CHR 0x0A) \<or> hi < length (strip (take j rest))"
  shows "rmatch (Greedy_star Space # Group_lazy Dot 1 (Some hi) # Greedy_star Space # tag_close name) rest
           = None"
proof (rule ccontr)
  assume "rmatch (Greedy_star Space # Group_lazy Dot 1 (Some hi) # Greedy_star Space # tag_close name) rest
            \<noteq> None"
  then obtain g r where m: "rmatch (Greedy_star Space # Group_lazy Dot 1 (Some hi)
      # Greedy_star Space # tag_close name) rest = Some (g, r)"
    by auto
  from rmatch_star_sound [OF m] obtain w1 s1 where 1: "rest = w1 @ s1" "\<forall>x \<in> set w1. in_cls Space x"
      "rmatch (Group_lazy Dot 1 (Some hi) # Greedy_star Space # tag_close name) s1 = Some (g, r)"
    by blast
  from rmatch_lazy_sound [OF 1(3)] obtain g0 s2 g' where 2: "s1 = g0 @ s2" "\<forall>x \<in> set g0. in_cls Dot x"
      "1 \<le> length g0" "length g0 \<le> hi" "rmatch (Greedy_star Space # tag_close name) s2 = Some (g', r)"
    by blast
  from rmatch_star_sound [OF 2(5)] obtain w2 s3 where 3: "s2 = w2 @ s3" "\<forall>x \<in> set w2. in_cls Space x"
      "rmatch (tag_close name @ []) s3 = Some (g', r)"
    by auto
  have "rmatch (tag_close name) s3
          = (case close_tag_at name s3 of None \<Rightarrow> None | Some r \<Rightarrow> rmatch [] r)"
    using rmatch_tag_close [OF assms(1), of "[]" s3] by simp
  with 3(3) have c: "close_tag_at name s3 \<noteq> None"
    by (auto split: option.splits)
  then have s3: "s3 \<noteq> []" by auto
  have rest: "rest = (w1 @ g0 @ w2) @ s3" using 1 2 3 by simp
  have "length (w1 @ g0 @ w2) \<in> set (close_positions name rest)"
    unfolding close_positions_def using c s3 by (simp add: rest)
  with assms(2) have j: "j = length (w1 @ g0 @ w2)" by simp
  have t: "take j rest = w1 @ g0 @ w2" by (simp add: j rest)
  from assms(3) show False
  proof
    assume "\<forall>c \<in> set (take j rest). c = CHR 0x0A"
    moreover from 2(3) have "hd g0 \<in> set g0" by (cases g0) auto
    ultimately have "hd g0 = CHR 0x0A" "hd g0 \<in> set g0" by (auto simp: t)
    with 2(2) show False by auto
  next
    assume "hi < length (strip (take j rest))"
    moreover have "length (strip (w1 @ g0 @ w2)) \<le> length g0"
      using 1(2) 3(2) by (intro length_strip_le) auto
    ultimately show False using 2(4) by (simp add: t)
  qed
qed

text \<open>
  Claim C10, as the code has it. Take a block with one opening name tag and, after it, one
  closing name tag. When the content between them is empty or made of line feeds only, or
  when the content without its surrounding whitespace is longer than 60 characters, the
  name pattern finds nothing and the decoder uses the fallback name.
\<close>

theorem unusable_name_falls_back:
  assumes "open_positions ''NomeAttachment'' attachment = [i]"
    and "open_tag_at ''NomeAttachment'' (drop i attachment) = Some rest"
    and "close_positions ''NomeAttachment'' rest = [j]"
    and "(\<forall>c \<in> set (take j rest). c = CHR 0x0A) \<or> 60 < length (strip (take j rest))"
  shows "search (regex nome) attachment = None
         \<and> resolve_nome idx basename attachment
             = fst (splitext basename) @ ''_allegato_'' @ str_nat (idx + 1)"
proof -
  have "rmatch (regex nome) (drop k attachment) = None" for k
  proof (cases "open_tag_at ''NomeAttachment'' (drop k attachment)")
    case None
    then show ?thesis
      by (simp add: rmatch_tag_open [OF plain_NomeAttachment])
  next
    case (Some r)
    then have "drop k attachment \<noteq> []" by auto
    then have "k < length attachment" by simp
    with Some have "k \<in> set (open_positions ''NomeAttachment'' attachment)"
      by (simp add: open_positions_def)
    with assms(1) have "k = i" by simp
    with Some assms(2) have "r = rest" by simp
    with Some show ?thesis
      using name_content_no_match [OF plain_NomeAttachment assms(3,4)]
      by (simp add: rmatch_tag_open [OF plain_NomeAttachment])
  qed
  then have "search (regex nome) attachment = None"
    by (simp add: search_None_iff)
  then show ?thesis by (simp add: resolve_nome_def)
qed

lemma eval_long_open_positions: "open_positions ''NomeAttachment'' long_name_block = [0]"
  by code_simp

lemma eval_long_rest:
  "open_tag_at ''NomeAttachment'' (drop 0 long_name_block)
     = Some ('' '' @ replicate 61 CHR ''a'' @ '' </NomeAttachment>'')"
  by code_simp

lemma eval_long_close_positions:
  "close_positions ''NomeAttachment'' ('' '' @ replicate 61 CHR ''a'' @ '' </NomeAttachment>'') = [63]"
  by code_simp

lemma eval_long_strip:
  "60 < length (strip (take 63 ('' '' @ replicate 61 CHR ''a'' @ '' </NomeAttachment>'')))"
  by code_simp

lemma eval_fallback_1:
  "fst (splitext ''invoice.xml'') @ ''_allegato_'' @ str_nat (0 + 1) = ''invoice_allegato_1''"
  by code_simp

theorem unusable_name_falls_back_witness:
  "open_positions ''NomeAttachment'' long_name_block = [0]
   \<and> open_tag_at ''NomeAttachment'' (drop 0 long_name_block)
       = Some ('' '' @ replicate 61 CHR ''a'' @ '' </NomeAttachment>'')
   \<and> close_positions ''NomeAttachment'' ('' '' @ replicate 61 CHR ''a'' @ '' </NomeAttachment>'') = [63]
   \<and> 60 < length (strip (take 63 ('' '' @ replicate 61 CHR ''a'' @ '' </NomeAttachment>'')))
   \<and> search (regex nome) long_name_block = None
   \<and> resolve_nome 0 ''invoice.xml'' long_name_block = ''invoice_allegato_1''"
proof -
  have h: "(\<forall>c \<in> set (take 63 ('' '' @ replicate 61 CHR ''a'' @ '' </NomeAttachment>'')). c = CHR 0x0A)
           \<or> 60 < length (strip (take 63 ('' '' @ replicate 61 CHR ''a'' @ '' </NomeAttachment>'')))"
    using eval_long_strip by (rule disjI2)
  have "search (regex nome) long_name_block = None
         \<and> resolve_nome 0 ''invoice.xml'' long_name_block
             = fst (splitext ''invoice.xml'') @ ''_allegato_'' @ str_nat (0 + 1)"
    by (rule unusable_name_falls_back [OF eval_long_open_positions eval_long_rest
          eval_long_close_positions h])
  then show ?thesis
    using eval_long_open_positions eval_long_rest eval_long_close_positions eval_long_strip
    by (simp only: eval_fallback_1 simp_thms)
qed

lemma eval_blank_name: "search (regex nome) ''<NomeAttachment> </NomeAttachment>'' = Some '' ''"
  by code_simp

lemma eval_blank_strip: "strip '' '' = []"
  by code_simp

lemma eval_blank_resolve: "resolve_nome 0 ''invoice.xml'' ''<NomeAttachment> </NomeAttachment>'' = '' ''"
  by code_simp

text \<open>
  Claim C10 as stated fails for a content that is blank but not empty: the pattern lets the
  group take a whitespace character other than a line feed, so the name is a single space.
\<close>

theorem blank_name_counterexample:
  "strip '' '' = []
   \<and> search (regex nome) ''<NomeAttachment> </NomeAttachment>'' = Some '' ''
   \<and> resolve_nome 0 ''invoice.xml'' ''<NomeAttachment> </NomeAttachment>'' = '' ''
   \<and> resolve_nome 0 ''invoice.xml'' ''<NomeAttachment> </NomeAttachment>''
       \<noteq> fst (splitext ''invoice.xml'') @ ''_allegato_'' @ str_nat (0 + 1)"
  by (simp only: eval_blank_name eval_blank_strip eval_blank_resolve eval_fallback_1) simp

section \<open>Base64: decoding what the encoder wrote\<close>

lemma shift_in:
  fixes h l k :: nat
  assumes "l < k"
  shows "(k * h + l) div k = h" "(k * h + l) mod k = l"
  using assms by simp_all

lemma regroup:
  fixes a :: nat
  shows "a div 4 * 64 + a mod 4 * 16 = 16 * a" "a div 16 * 64 + a mod 16 * 4 = 4 * a"
proof -
  have g1: "16 * (q * 4 + m) = q * 64 + m * 16" for q m :: nat by simp
  have g2: "4 * (q * 16 + m) = q * 64 + m * 4" for q m :: nat by simp
  show "a div 4 * 64 + a mod 4 * 16 = 16 * a"
    using g1 [of "a div 4" "a mod 4"] by (simp only: div_mult_mod_eq)
  show "a div 16 * 64 + a mod 16 * 4 = 4 * a"
    using g2 [of "a div 16" "a mod 16"] by (simp only: div_mult_mod_eq)
qed

lemma quad_arith:
  fixes a b c :: nat
  assumes "a < 256" "b < 256" "c < 256"
  shows "(a div 4 * 64 + (a mod 4 * 16 + b div 16)) div 16 mod 256 = a"
    "(a div 4 * 64 + (a mod 4 * 16 + b div 16)) mod 16 = b div 16"
    "(b div 16 * 64 + (b mod 16 * 4 + c div 64)) div 4 mod 256 = b"
    "(b div 16 * 64 + (b mod 16 * 4 + c div 64)) mod 4 = c div 64"
    "(c div 64 * 64 + c mod 64) mod 256 = c"
    "(a div 4 * 64 + a mod 4 * 16) div 16 mod 256 = a"
    "(a div 4 * 64 + a mod 4 * 16) mod 16 = 0"
    "(b div 16 * 64 + b mod 16 * 4) div 4 mod 256 = b"
    "(b div 16 * 64 + b mod 16 * 4) mod 4 = 0"
proof -
  have b16: "b div 16 < 16" using assms(2) by (simp add: less_mult_imp_div_less)
  have c64: "c div 64 < 4" using assms(3) by (simp add: less_mult_imp_div_less)
  have e1: "a div 4 * 64 + (a mod 4 * 16 + b div 16) = 16 * a + b div 16"
    using regroup(1) [of a] by simp
  have e2: "b div 16 * 64 + (b mod 16 * 4 + c div 64) = 4 * b + c div 64"
    using regroup(2) [of b] by simp
  show "(a div 4 * 64 + (a mod 4 * 16 + b div 16)) div 16 mod 256 = a"
    unfolding e1 using shift_in(1) [OF b16, of a] assms(1) by simp
  show "(a div 4 * 64 + (a mod 4 * 16 + b div 16)) mod 16 = b div 16"
    unfolding e1 using shift_in(2) [OF b16, of a] by simp
  show "(b div 16 * 64 + (b mod 16 * 4 + c div 64)) div 4 mod 256 = b"
    unfolding e2 using shift_in(1) [OF c64, of b] assms(2) by simp
  show "(b div 16 * 64 + (b mod 16 * 4 + c div 64)) mod 4 = c div 64"
    unfolding e2 using shift_in(2) [OF c64, of b] by simp
  show "(c div 64 * 64 + c mod 64) mod 256 = c"
    using assms(3) by simp
  show "(a div 4 * 64 + a mod 4 * 16) div 16 mod 256 = a"
    unfolding regroup using assms(1) by simp
  show "(a div 4 * 64 + a mod 4 * 16) mod 16 = 0"
    unfolding regroup by simp
  show "(b div 16 * 64 + b mod 16 * 4) div 4 mod 256 = b"
    unfolding regroup using assms(2) by simp
  show "(b div 16 * 64 + b mod 16 * 4) mod 4 = 0"
    unfolding regroup by simp
qed

lemma sextets:
  fixes a b c :: nat
  assumes "a < 256" "b < 256" "c < 256"
  shows "a div 4 < 64" "a mod 4 * 16 + b div 16 < 64"
    "b mod 16 * 4 + c div 64 < 64" "c mod 64 < 64" "a mod 4 * 16 < 64" "b mod 16 * 4 < 64"
proof -
  have b16: "b div 16 < 16" using assms(2) by (simp add: less_mult_imp_div_less)
  have c64: "c div 64 < 4" using assms(3) by (simp add: less_mult_imp_div_less)
  have a4: "a mod 4 < 4" by simp
  have b4: "b mod 16 < 16" by simp
  show "a div 4 < 64" using assms(1) by (simp add: less_mult_imp_div_less)
  show "a mod 4 * 16 + b div 16 < 64" using a4 b16 by linarith
  show "b mod 16 * 4 + c div 64 < 64" using b4 c64 by linarith
  show "c mod 64 < 64" by simp
  show "a mod 4 * 16 < 64" using a4 by linarith
  show "b mod 16 * 4 < 64" using b4 by linarith
qed

lemma code_less_256: "code c < 256"
  by (simp add: code_def)

lemma char_of_code: "char_of (code c) = c"
  by (simp add: code_def)


lemma b2a_table:
  "list_all (\<lambda>v. table_a2b_base64 (b2a v) = Some v \<and> b2a v \<noteq> CHR ''='') [0..<64]"
  by code_simp

lemma table_a2b_base64_Some:
  "table_a2b_base64 c = Some v \<Longrightarrow>
     code c \<le> 127 \<and> c \<noteq> CHR 0x0D \<and> c \<noteq> CHR 0x0A \<and> c \<noteq> CHR '' '' \<and> c \<noteq> CHR ''<''
     \<and> is_b64_alphabet c"
  by (auto simp: table_a2b_base64_def is_b64_alphabet_def code_def split: if_splits)

lemma b2a_facts:
  assumes "v < 64"
  shows "table_a2b_base64 (b2a v) = Some v" "b2a v \<noteq> CHR ''=''" "code (b2a v) \<le> 127"
    "b2a v \<noteq> CHR 0x0D" "b2a v \<noteq> CHR 0x0A" "b2a v \<noteq> CHR '' ''" "b2a v \<noteq> CHR ''<''"
    "is_b64_alphabet (b2a v)"
proof -
  from assms have "v \<in> set [0..<64]" by simp
  with b2a_table have t: "table_a2b_base64 (b2a v) = Some v \<and> b2a v \<noteq> CHR ''=''"
    unfolding list_all_iff by blast
  then show "table_a2b_base64 (b2a v) = Some v" "b2a v \<noteq> CHR ''=''" by simp_all
  from t table_a2b_base64_Some [of "b2a v" v]
  show "code (b2a v) \<le> 127"
    "b2a v \<noteq> CHR 0x0D" "b2a v \<noteq> CHR 0x0A" "b2a v \<noteq> CHR '' ''" "b2a v \<noteq> CHR ''<''"
    "is_b64_alphabet (b2a v)"
    by simp_all
qed

text \<open>One alphabet character shifts six bits in; the four positions of a quad.\<close>

lemma a2b_loop_data:
  assumes "v < 64"
  shows "a2b_loop (b2a v # rest) q lb lc acc
     = (if 8 \<le> lb + 6 then
          a2b_loop rest ((q + 1) mod 4) (lb + 6 - 8) ((lc * 64 + v) mod 2 ^ (lb + 6 - 8))
            (acc @ [char_of ((lc * 64 + v) div 2 ^ (lb + 6 - 8) mod 256)])
        else a2b_loop rest ((q + 1) mod 4) (lb + 6) (lc * 64 + v) acc)"
  using b2a_facts [OF assms] by simp

lemma quad_step_0:
  "v < 64 \<Longrightarrow> a2b_loop (b2a v # rest) 0 0 0 acc = a2b_loop rest 1 6 v acc"
  by (subst a2b_loop_data) simp_all

lemma quad_step_1:
  "v < 64 \<Longrightarrow> a2b_loop (b2a v # rest) 1 6 lc acc
     = a2b_loop rest 2 4 ((lc * 64 + v) mod 16) (acc @ [char_of ((lc * 64 + v) div 16 mod 256)])"
  by (subst a2b_loop_data) (simp_all add: one_add_one del: One_nat_def)

lemma quad_step_2:
  "v < 64 \<Longrightarrow> a2b_loop (b2a v # rest) 2 4 lc acc
     = a2b_loop rest 3 2 ((lc * 64 + v) mod 4) (acc @ [char_of ((lc * 64 + v) div 4 mod 256)])"
  by (subst a2b_loop_data) simp_all

lemma quad_step_3:
  "v < 64 \<Longrightarrow> a2b_loop (b2a v # rest) 3 2 lc acc
     = a2b_loop rest 0 0 0 (acc @ [char_of ((lc * 64 + v) mod 256)])"
  by (subst a2b_loop_data) simp_all

lemma pad_after_three: "a2b_loop (CHR ''='' # rest) 3 lb lc acc = Inr acc"
  by (simp add: code_def)

lemma pad_after_two: "a2b_loop (CHR ''='' # CHR ''='' # rest) 2 lb lc acc = Inr acc"
  by (simp add: code_def table_a2b_base64_def)

lemma a2b_loop_encode: "a2b_loop (b64encode data) 0 0 0 acc = Inr (acc @ data)"
proof (induction data arbitrary: acc rule: b64encode.induct)
  case 1
  then show ?case by simp
next
  case (2 x)
  note s = sextets [OF code_less_256 [of x] code_less_256 [of x] code_less_256 [of x]]
  note q = quad_arith [OF code_less_256 [of x] code_less_256 [of x] code_less_256 [of x]]
  have "a2b_loop (b64encode [x]) 0 0 0 acc
          = a2b_loop [b2a (code x mod 4 * 16), CHR ''='', CHR ''=''] 1 6 (code x div 4) acc"
    by (simp only: b64encode.simps quad_step_0 [OF s(1)])
  also have "\<dots> = a2b_loop [CHR ''='', CHR ''='']  2 4 ((code x div 4 * 64 + code x mod 4 * 16) mod 16)
      (acc @ [char_of ((code x div 4 * 64 + code x mod 4 * 16) div 16 mod 256)])"
    by (simp only: quad_step_1 [OF s(5)])
  also have "\<dots> = Inr (acc @ [char_of ((code x div 4 * 64 + code x mod 4 * 16) div 16 mod 256)])"
    by (rule pad_after_two)
  also have "\<dots> = Inr (acc @ [x])"
    by (simp only: q char_of_code)
  finally show ?case .
next
  case (3 x y)
  note s = sextets [OF code_less_256 [of x] code_less_256 [of y] code_less_256 [of y]]
  note q = quad_arith [OF code_less_256 [of x] code_less_256 [of y] code_less_256 [of y]]
  have "a2b_loop (b64encode [x, y]) 0 0 0 acc
          = a2b_loop [b2a (code x mod 4 * 16 + code y div 16), b2a (code y mod 16 * 4), CHR ''='']
              1 6 (code x div 4) acc"
    by (simp only: b64encode.simps quad_step_0 [OF s(1)])
  also have "\<dots> = a2b_loop [b2a (code y mod 16 * 4), CHR ''='']  2 4
      ((code x div 4 * 64 + (code x mod 4 * 16 + code y div 16)) mod 16)
      (acc @ [char_of ((code x div 4 * 64 + (code x mod 4 * 16 + code y div 16)) div 16 mod 256)])"
    by (simp only: quad_step_1 [OF s(2)])
  also have "\<dots> = a2b_loop [b2a (code y mod 16 * 4), CHR ''='']  2 4 (code y div 16) (acc @ [x])"
    by (simp only: q char_of_code)
  also have "\<dots> = a2b_loop [CHR ''=''] 3 2 ((code y div 16 * 64 + code y mod 16 * 4) mod 4)
      ((acc @ [x]) @ [char_of ((code y div 16 * 64 + code y mod 16 * 4) div 4 mod 256)])"
    by (simp only: quad_step_2 [OF s(6)])
  also have "\<dots> = Inr ((acc @ [x]) @ [char_of ((code y div 16 * 64 + code y mod 16 * 4) div 4 mod 256)])"
    by (rule pad_after_three)
  also have "\<dots> = Inr (acc @ [x, y])"
    by (simp only: q char_of_code) simp
  finally show ?case .
next
  case (4 x y z rest)
  note s = sextets [OF code_less_256 [of x] code_less_256 [of y] code_less_256 [of z]]
  note q = quad_arith [OF code_less_256 [of x] code_less_256 [of y] code_less_256 [of z]]
  have "a2b_loop (b64encode (x # y # z # rest)) 0 0 0 acc
          = a2b_loop (b2a (code x mod 4 * 16 + code y div 16) # b2a (code y mod 16 * 4 + code z div 64)
              # b2a (code z mod 64) # b64encode rest) 1 6 (code x div 4) acc"
    by (simp only: b64encode.simps append.simps quad_step_0 [OF s(1)])
  also have "\<dots> = a2b_loop (b2a (code y mod 16 * 4 + code z div 64) # b2a (code z mod 64) # b64encode rest)
      2 4 ((code x div 4 * 64 + (code x mod 4 * 16 + code y div 16)) mod 16)
      (acc @ [char_of ((code x div 4 * 64 + (code x mod 4 * 16 + code y div 16)) div 16 mod 256)])"
    by (simp only: quad_step_1 [OF s(2)])
  also have "\<dots> = a2b_loop (b2a (code y mod 16 * 4 + code z div 64) # b2a (code z mod 64) # b64encode rest)
      2 4 (code y div 16) (acc @ [x])"
    by (simp only: q char_of_code)
  also have "\<dots> = a2b_loop (b2a (code z mod 64) # b64encode rest) 3 2
      ((code y div 16 * 64 + (code y mod 16 * 4 + code z div 64)) mod 4)
      ((acc @ [x]) @ [char_of ((code y div 16 * 64 + (code y mod 16 * 4 + code z div 64)) div 4 mod 256)])"
    by (simp only: quad_step_2 [OF s(3)])
  also have "\<dots> = a2b_loop (b2a (code z mod 64) # b64encode rest) 3 2 (code z div 64) ((acc @ [x]) @ [y])"
    by (simp only: q char_of_code)
  also have "\<dots> = a2b_loop (b64encode rest) 0 0 0
      (((acc @ [x]) @ [y]) @ [char_of ((code z div 64 * 64 + code z mod 64) mod 256)])"
    by (simp only: quad_step_3 [OF s(4)])
  also have "\<dots> = a2b_loop (b64encode rest) 0 0 0 (((acc @ [x]) @ [y]) @ [z])"
    by (simp only: q char_of_code)
  also have "\<dots> = Inr ((((acc @ [x]) @ [y]) @ [z]) @ rest)"
    by (rule "4.IH")
  finally show ?case by simp
qed

lemma payload_char_b2a: "v < 64 \<Longrightarrow> payload_char (b2a v)"
  using b2a_facts(3,7,8) [of v] by (simp add: payload_char_def)

lemma payload_char_pad: "payload_char CHR ''=''"
  by (simp add: payload_char_def is_b64_alphabet_def code_def)

lemma b64encode_alphabet: "\<forall>c \<in> set (b64encode data). payload_char c"
proof (induction data rule: b64encode.induct)
  case 1
  then show ?case by simp
next
  case (2 x)
  note s = sextets [OF code_less_256 [of x] code_less_256 [of x] code_less_256 [of x]]
  show ?case
    by (simp add: payload_char_b2a [OF s(1)] payload_char_b2a [OF s(5)] payload_char_pad)
next
  case (3 x y)
  note s = sextets [OF code_less_256 [of x] code_less_256 [of y] code_less_256 [of y]]
  show ?case
    by (simp add: payload_char_b2a [OF s(1)] payload_char_b2a [OF s(2)] payload_char_b2a [OF s(6)]
          payload_char_pad)
next
  case (4 x y z rest)
  note s = sextets [OF code_less_256 [of x] code_less_256 [of y] code_less_256 [of z]]
  show ?case
    using "4.IH"
    by (simp add: payload_char_b2a [OF s(1)] payload_char_b2a [OF s(2)] payload_char_b2a [OF s(3)]
          payload_char_b2a [OF s(4)])
qed

lemma no_high_chars: "list_ex (\<lambda>c. 127 < code c) (b64encode data) = False"
proof -
  have "\<not> 127 < code c" if "c \<in> set (b64encode data)" for c
  proof -
    from that b64encode_alphabet [of data] have "payload_char c" by blast
    then show ?thesis unfolding payload_char_def by simp
  qed
  then show ?thesis
    unfolding list_ex_iff by blast
qed

lemma b64decode_b64encode: "b64decode (b64encode data) = Inr data"
  unfolding b64decode_def a2b_base64_def no_high_chars
  using a2b_loop_encode [of data "[]"] by (simp only: if_False append_Nil)

section \<open>The round trip: properties\<close>

lemma plain_Attachment: "plain_name ''Attachment''"
  by (simp add: plain_name_def is_space_def code_def)

lemma no_lt_no_close: "CHR ''<'' \<notin> set s \<Longrightarrow> \<not> occurs_close name s"
  by (induction s) (auto simp: close_tag_at_def)

text \<open>The payload pattern finds an encoded payload between its tags.\<close>

lemma search_payload:
  assumes "\<not> occurs_open ''Attachment'' pre" "open_tag_at ''Attachment'' opn = Some []"
    "close_tag_at ''Attachment'' cls = Some []" "\<forall>c \<in> set enc. payload_char c"
  shows "search (regex allegato) (pre @ opn @ enc @ cls @ post) = Some enc"
proof -
  let ?p = "tag_open ''Attachment'' @ Group_lazy Base64_or_space 0 None # tag_close ''Attachment''"
  from open_tag_at_hd [OF assms(2)] obtain x xs where o: "opn = x # xs" and x: "x = CHR ''<''"
    by (cases opn) auto
  have h: "opn @ enc @ cls @ post = [] \<or> hd (opn @ enc @ cls @ post) = CHR ''<''"
    using o x by simp
  have c: "\<not> occurs_close ''Attachment'' enc"
    using assms(4) by (intro no_lt_no_close) (auto simp: payload_char_def)
  have b: "\<forall>x \<in> set enc. in_cls Base64_or_space x"
    using assms(4) by (auto simp: payload_char_def)
  have m: "rmatch ?p (x # xs @ enc @ cls @ post) = Some (enc, post)"
    using rmatch_container [OF plain_Attachment assms(2) c assms(3) b, of post] o by simp
  have "search ?p (pre @ opn @ enc @ cls @ post) = search ?p (opn @ enc @ cls @ post)"
    by (rule search_gap [OF plain_Attachment assms(1) h])
  also have "\<dots> = Some enc"
    using m o by simp
  finally show ?thesis by simp
qed

text \<open>Writing leaves every directory a directory, so the path resolves as before.\<close>

lemma walk_preserved:
  assumes "\<And>x names r wr. fs w x = Some (Dir names r wr) \<Longrightarrow> \<exists>names' r' wr'. fs w' x = Some (Dir names' r' wr')"
  shows "walk w path cur cs = Inr k \<Longrightarrow> walk w' path cur cs = Inr k"
proof (induction cs arbitrary: cur)
  case Nil
  then show ?case by simp
next
  case (Cons c cs)
  show ?case
  proof (cases "c = [] \<or> c = ''.''")
    case True
    with Cons show ?thesis by simp
  next
    case False
    note plain = this
    show ?thesis
    proof (cases "c = ''..''")
      case True
      with Cons plain show ?thesis by simp
    next
      case False
      with Cons.prems plain obtain names r wr where d: "fs w (join cur c) = Some (Dir names r wr)"
          and k: "walk w path (join cur c) cs = Inr k"
        by (auto split: option.splits node.splits)
      from assms [OF d] obtain names' r' wr' where d': "fs w' (join cur c) = Some (Dir names' r' wr')"
        by blast
      from Cons.IH [OF k] d' plain False show ?thesis by simp
    qed
  qed
qed

lemma parent_of_preserved:
  assumes "\<And>x names r wr. fs w x = Some (Dir names r wr) \<Longrightarrow> \<exists>names' r' wr'. fs w' x = Some (Dir names' r' wr')"
    and "cwd w' = cwd w" "parent_of w path = Inr k"
  shows "parent_of w' path = Inr k"
proof -
  from assms(3) obtain names r wr where s: "fs w (start_dir w path) = Some (Dir names r wr)"
      and k: "walk w path (start_dir w path) (butlast (components path)) = Inr k"
    by (auto simp: parent_of_def split: option.splits node.splits)
  have e: "start_dir w' path = start_dir w path"
    using assms(2) by (simp add: start_dir_def)
  from assms(1) [OF s] obtain names' r' wr' where "fs w' (start_dir w path) = Some (Dir names' r' wr')"
    by blast
  then show ?thesis
    using walk_preserved [OF assms(1) k] by (simp add: parent_of_def e)
qed

text \<open>What a successful write leaves behind: the path resolves as before and the target holds the data.\<close>

lemma write_bytes_Inr:
  assumes "write_bytes w p mode data = Inr w'"
  obtains parent names pr pw where "names_a_file p" "parent_of w p = Inr parent"
      "fs w parent = Some (Dir names pr pw)"
      "(\<exists>c r. fs w (join parent (last (components p))) = Some (File c r True) \<and> mode \<noteq> ''xb''
           \<and> w' = w\<lparr>fs := (fs w)(join parent (last (components p)) \<mapsto> File data r True)\<rparr>)
       \<or> (fs w (join parent (last (components p))) = None \<and> pw
           \<and> w' = w\<lparr>fs := (fs w)(parent \<mapsto> Dir (names @ [last (components p)]) pr pw,
                                  join parent (last (components p)) \<mapsto> File data True True)\<rparr>)"
proof -
  from assms have n: "CHR 0x00 \<notin> set p" and e: "p \<noteq> []"
    by (auto simp: write_bytes_def split: if_splits)
  from assms n e obtain parent where par: "parent_of w p = Inr parent"
    by (cases "parent_of w p") (auto simp: write_bytes_def)
  from assms n e par obtain names pr pw where d: "fs w parent = Some (Dir names pr pw)"
    by (auto simp: write_bytes_def split: option.splits node.splits)
  from assms n e par d have c: "components p \<noteq> []" "last (components p) \<noteq> ''.''"
      "last (components p) \<noteq> ''..''" "\<not> endswith p [sep]"
    by (auto simp: write_bytes_def split: if_splits)
  have nf: "names_a_file p"
    using n c by (simp add: names_a_file_def)
  from assms n e par d c have
    "(\<exists>c r. fs w (join parent (last (components p))) = Some (File c r True) \<and> mode \<noteq> ''xb''
           \<and> w' = w\<lparr>fs := (fs w)(join parent (last (components p)) \<mapsto> File data r True)\<rparr>)
       \<or> (fs w (join parent (last (components p))) = None \<and> pw
           \<and> w' = w\<lparr>fs := (fs w)(parent \<mapsto> Dir (names @ [last (components p)]) pr pw,
                                  join parent (last (components p)) \<mapsto> File data True True)\<rparr>)"
    by (auto simp: write_bytes_def split: if_splits option.splits node.splits)
  with nf par d show ?thesis
    by (rule that)
qed

lemma read_bytes_File:
  assumes "names_a_file p" "parent_of w p = Inr parent"
    and "fs w (join parent (last (components p))) = Some (File c r wr)"
  shows "read_bytes w p = (if r then Inr c else Inl (PermissionError p))"
  using assms names_a_file_nonempty [OF assms(1)]
  by (simp add: read_bytes_def names_a_file_def)

lemma write_then_read:
  assumes "write_bytes w p mode data = Inr w'"
  shows "\<exists>parent r wr. parent_of w' p = Inr parent
           \<and> fs w' (join parent (last (components p))) = Some (File data r wr)
           \<and> read_bytes w' p = (if r then Inr data else Inl (PermissionError p))
           \<and> (mode = ''xb'' \<longrightarrow> r)"
proof -
  from assms obtain parent names pr pw where nf: "names_a_file p" and par: "parent_of w p = Inr parent"
      and d: "fs w parent = Some (Dir names pr pw)"
      and cases: "(\<exists>c r. fs w (join parent (last (components p))) = Some (File c r True) \<and> mode \<noteq> ''xb''
           \<and> w' = w\<lparr>fs := (fs w)(join parent (last (components p)) \<mapsto> File data r True)\<rparr>)
       \<or> (fs w (join parent (last (components p))) = None \<and> pw
           \<and> w' = w\<lparr>fs := (fs w)(parent \<mapsto> Dir (names @ [last (components p)]) pr pw,
                                  join parent (last (components p)) \<mapsto> File data True True)\<rparr>)"
    by (rule write_bytes_Inr)
  let ?q = "join parent (last (components p))"
  from cases obtain r where f: "fs w' ?q = Some (File data r True)" and x: "mode = ''xb'' \<longrightarrow> r"
    by auto
  have keep: "\<And>x ns r wr. fs w x = Some (Dir ns r wr) \<Longrightarrow> \<exists>ns' r' wr'. fs w' x = Some (Dir ns' r' wr')"
    using cases by auto
  have cw: "cwd w' = cwd w"
    using cases by auto
  have par': "parent_of w' p = Inr parent"
    by (rule parent_of_preserved [OF keep cw par])
  have "read_bytes w' p = (if r then Inr data else Inl (PermissionError p))"
    by (rule read_bytes_File [OF nf par' f])
  with par' f x show ?thesis
    by blast
qed

lemma decode_block_payload:
  assumes "decode_payload attachment = Inr data" "data \<noteq> []"
  shows "decode_block idx (path, attachment)
           = Yielded (fst (split path),
                      resolve_nome idx (snd (split path)) attachment @ ''.'' @ resolve_ext data attachment,
                      data)"
  using assms by (simp add: decode_block_def Let_def split: prod.splits)

text \<open>
  Claim C9. For every byte sequence, decoding its base64 encoding gives the bytes back. A
  block whose first payload tag holds that encoding is decoded to exactly these bytes and,
  when they are not empty, the decoder yields them with the resolved file name. A write
  that succeeds leaves a regular file with exactly these bytes at the output path: reading
  it back in binary mode returns them whenever the file may be read, which is the case for
  every file the writer created, and a writable directory without the target is enough for
  the write to succeed.
\<close>

theorem base64_round_trip:
  "b64decode (b64encode b) = Inr b
   \<and> (\<not> occurs_open ''Attachment'' pre \<and> open_tag_at ''Attachment'' opn = Some []
        \<and> close_tag_at ''Attachment'' cls = Some []
      \<longrightarrow> decode_payload (pre @ opn @ b64encode b @ cls @ post) = Inr b
          \<and> (b \<noteq> []
             \<longrightarrow> decode_block idx (path, pre @ opn @ b64encode b @ cls @ post)
                 = Yielded (fst (split path),
                     resolve_nome idx (snd (split path)) (pre @ opn @ b64encode b @ cls @ post)
                       @ ''.'' @ resolve_ext b (pre @ opn @ b64encode b @ cls @ post),
                     b)))
   \<and> (write_bytes w (outpath_of a outdir) (if safety = ''low'' then ''wb'' else ''xb'') (snd (snd a)) = Inr w'
      \<longrightarrow> write_attachment a outdir safety w = w'
          \<and> (\<exists>parent r wr.
                parent_of w' (outpath_of a outdir) = Inr parent
                \<and> fs w' (join parent (last (components (outpath_of a outdir))))
                    = Some (File (snd (snd a)) r wr)
                \<and> read_bytes w' (outpath_of a outdir)
                    = (if r then Inr (snd (snd a)) else Inl (PermissionError (outpath_of a outdir))))
          \<and> (safety \<noteq> ''low'' \<longrightarrow> read_bytes w' (outpath_of a outdir) = Inr (snd (snd a))))
   \<and> (names_a_file (outpath_of a outdir)
        \<and> parent_of w (outpath_of a outdir) = Inr dir \<and> fs w dir = Some (Dir names pr True)
        \<and> fs w (join dir (last (components (outpath_of a outdir)))) = None
      \<longrightarrow> read_bytes (write_attachment a outdir safety w) (outpath_of a outdir) = Inr (snd (snd a)))"
proof (intro conjI impI)
  show "b64decode (b64encode b) = Inr b"
    by (rule b64decode_b64encode)
next
  assume h: "\<not> occurs_open ''Attachment'' pre \<and> open_tag_at ''Attachment'' opn = Some []
        \<and> close_tag_at ''Attachment'' cls = Some []"
  have "search (regex allegato) (pre @ opn @ b64encode b @ cls @ post) = Some (b64encode b)"
    using h b64encode_alphabet by (intro search_payload) simp_all
  then show p: "decode_payload (pre @ opn @ b64encode b @ cls @ post) = Inr b"
    by (simp add: decode_payload_def b64decode_b64encode)
  assume "b \<noteq> []"
  with p show "decode_block idx (path, pre @ opn @ b64encode b @ cls @ post)
                 = Yielded (fst (split path),
                     resolve_nome idx (snd (split path)) (pre @ opn @ b64encode b @ cls @ post)
                       @ ''.'' @ resolve_ext b (pre @ opn @ b64encode b @ cls @ post),
                     b)"
    by (rule decode_block_payload)
next
  assume h: "write_bytes w (outpath_of a outdir) (if safety = ''low'' then ''wb'' else ''xb'') (snd (snd a)) = Inr w'"
  then show "write_attachment a outdir safety w = w'"
    by (rule write_attachment_done)
  from write_then_read [OF h] obtain parent r wr where
      p: "parent_of w' (outpath_of a outdir) = Inr parent"
      and f: "fs w' (join parent (last (components (outpath_of a outdir)))) = Some (File (snd (snd a)) r wr)"
      and g: "read_bytes w' (outpath_of a outdir)
                = (if r then Inr (snd (snd a)) else Inl (PermissionError (outpath_of a outdir)))"
      and x: "(if safety = ''low'' then ''wb'' else ''xb'') = ''xb'' \<longrightarrow> r"
    by blast
  from p f g show "\<exists>parent r wr.
                parent_of w' (outpath_of a outdir) = Inr parent
                \<and> fs w' (join parent (last (components (outpath_of a outdir))))
                    = Some (File (snd (snd a)) r wr)
                \<and> read_bytes w' (outpath_of a outdir)
                    = (if r then Inr (snd (snd a)) else Inl (PermissionError (outpath_of a outdir)))"
    by blast
  assume "safety \<noteq> ''low''"
  with x g show "read_bytes w' (outpath_of a outdir) = Inr (snd (snd a))"
    by simp
next
  assume h: "names_a_file (outpath_of a outdir)
        \<and> parent_of w (outpath_of a outdir) = Inr dir \<and> fs w dir = Some (Dir names pr True)
        \<and> fs w (join dir (last (components (outpath_of a outdir)))) = None"
  let ?w = "w\<lparr>fs := (fs w)
               (dir \<mapsto> Dir (names @ [last (components (outpath_of a outdir))]) pr True,
                join dir (last (components (outpath_of a outdir)))
                  \<mapsto> File (snd (snd a)) True True)\<rparr>"
  from h have wr: "write_bytes w (outpath_of a outdir) (if safety = ''low'' then ''wb'' else ''xb'') (snd (snd a))
      = Inr ?w"
    using write_bytes_create by blast
  from write_then_read [OF wr] obtain parent r wr' where
      p: "parent_of ?w (outpath_of a outdir) = Inr parent"
      and f: "fs ?w (join parent (last (components (outpath_of a outdir)))) = Some (File (snd (snd a)) r wr')"
      and g: "read_bytes ?w (outpath_of a outdir)
                = (if r then Inr (snd (snd a)) else Inl (PermissionError (outpath_of a outdir)))"
    by blast
  have keep: "\<And>x ns r wr. fs w x = Some (Dir ns r wr) \<Longrightarrow> \<exists>ns' r' wr'. fs ?w x = Some (Dir ns' r' wr')"
    using h by auto
  from h have par: "parent_of w (outpath_of a outdir) = Inr dir"
    by blast
  have cw: "cwd ?w = cwd w"
    by simp
  have "parent_of ?w (outpath_of a outdir) = Inr dir"
    by (rule parent_of_preserved [OF keep cw par])
  with p have "parent = dir"
    by simp
  with f have "r"
    by simp
  with g have "read_bytes ?w (outpath_of a outdir) = Inr (snd (snd a))"
    by simp
  moreover have "write_attachment a outdir safety w = ?w"
    using wr by (rule write_attachment_done)
  ultimately show "read_bytes (write_attachment a outdir safety w) (outpath_of a outdir) = Inr (snd (snd a))"
    by simp
qed

lemma eval_encode_abcd: "b64encode ''ABCD'' = ''QUJDRA==''" by code_simp
lemma eval_no_payload_before: "\<not> occurs_open ''Attachment'' ''<NomeAttachment>fresh</NomeAttachment>''"
  by code_simp
lemma eval_open_spaced: "open_tag_at ''Attachment'' ''< Attachment >'' = Some []" by code_simp
lemma eval_close_plain: "close_tag_at ''Attachment'' ''</Attachment>'' = Some []" by code_simp
lemma eval_split_a_xml: "split ''/d/a.xml'' = (''/d'', ''a.xml'')" by code_simp
lemma eval_name_fresh:
  "resolve_nome 0 ''a.xml'' ''<NomeAttachment>fresh</NomeAttachment>< Attachment >QUJDRA==</Attachment>'' = ''fresh''"
  by code_simp
lemma eval_ext_abcd:
  "resolve_ext ''ABCD'' ''<NomeAttachment>fresh</NomeAttachment>< Attachment >QUJDRA==</Attachment>''
     = ''formatoSconosciuto''"
  by code_simp
lemma eval_outpath_bin:
  "outpath_of (''/d'', ''fresh.formatoSconosciuto'', ''ABCD'') None = ''/d/fresh.formatoSconosciuto''"
  by code_simp
lemma eval_names_bin: "names_a_file ''/d/fresh.formatoSconosciuto''" by code_simp
lemma eval_components_bin:
  "components ''/d/fresh.formatoSconosciuto'' = ['''', ''d'', ''fresh.formatoSconosciuto'']"
  by code_simp
lemma eval_join_bin: "join ''/d'' ''fresh.formatoSconosciuto'' = ''/d/fresh.formatoSconosciuto''"
  by code_simp
lemma eval_parent_bin: "parent_of disk ''/d/fresh.formatoSconosciuto'' = Inr ''/d''" by code_simp

theorem base64_round_trip_witness:
  "b64encode ''ABCD'' = ''QUJDRA==''
   \<and> b64decode ''QUJDRA=='' = Inr ''ABCD''
   \<and> \<not> occurs_open ''Attachment'' ''<NomeAttachment>fresh</NomeAttachment>''
   \<and> open_tag_at ''Attachment'' ''< Attachment >'' = Some []
   \<and> close_tag_at ''Attachment'' ''</Attachment>'' = Some []
   \<and> decode_block 0 (''/d/a.xml'',
         ''<NomeAttachment>fresh</NomeAttachment>< Attachment >QUJDRA==</Attachment>'')
       = Yielded (''/d'', ''fresh.formatoSconosciuto'', ''ABCD'')
   \<and> names_a_file ''/d/fresh.formatoSconosciuto''
   \<and> parent_of disk ''/d/fresh.formatoSconosciuto'' = Inr ''/d''
   \<and> fs disk ''/d'' = Some (Dir [''a.xml'', ''b.txt'', ''sub'', ''doc.pdf''] True True)
   \<and> fs disk ''/d/fresh.formatoSconosciuto'' = None
   \<and> write_bytes disk ''/d/fresh.formatoSconosciuto'' ''xb'' ''ABCD''
       = Inr (disk\<lparr>fs := (fs disk)
            (''/d'' \<mapsto> Dir [''a.xml'', ''b.txt'', ''sub'', ''doc.pdf'', ''fresh.formatoSconosciuto''] True True,
             ''/d/fresh.formatoSconosciuto'' \<mapsto> File ''ABCD'' True True)\<rparr>)
   \<and> read_bytes (disk\<lparr>fs := (fs disk)
            (''/d'' \<mapsto> Dir [''a.xml'', ''b.txt'', ''sub'', ''doc.pdf'', ''fresh.formatoSconosciuto''] True True,
             ''/d/fresh.formatoSconosciuto'' \<mapsto> File ''ABCD'' True True)\<rparr>)
         ''/d/fresh.formatoSconosciuto'' = Inr ''ABCD''
   \<and> read_bytes (write_attachment (''/d'', ''fresh.formatoSconosciuto'', ''ABCD'') None ''max'' disk)
         ''/d/fresh.formatoSconosciuto'' = Inr ''ABCD''"
proof -
  let ?w = "disk\<lparr>fs := (fs disk)
            (''/d'' \<mapsto> Dir [''a.xml'', ''b.txt'', ''sub'', ''doc.pdf'', ''fresh.formatoSconosciuto''] True True,
             ''/d/fresh.formatoSconosciuto'' \<mapsto> File ''ABCD'' True True)\<rparr>"
  have p: "fs disk ''/d'' = Some (Dir [''a.xml'', ''b.txt'', ''sub'', ''doc.pdf''] True True)"
    by (simp add: disk_def)
  have g: "fs disk ''/d/fresh.formatoSconosciuto'' = None"
    by (simp add: disk_def)
  have wr: "write_bytes disk ''/d/fresh.formatoSconosciuto'' ''xb'' ''ABCD'' = Inr ?w"
    using write_bytes_create [OF eval_names_bin eval_parent_bin p, where mode = "''xb''" and data = "''ABCD''"] g
    by (simp add: eval_components_bin eval_join_bin)
  note t = base64_round_trip [where b = "''ABCD''" and pre = "''<NomeAttachment>fresh</NomeAttachment>''"
      and opn = "''< Attachment >''" and cls = "''</Attachment>''" and post = "[]" and idx = 0
      and path = "''/d/a.xml''" and a = "(''/d'', ''fresh.formatoSconosciuto'', ''ABCD'')"
      and outdir = None and safety = "''max''" and w = disk and w' = ?w and dir = "''/d''"
      and names = "[''a.xml'', ''b.txt'', ''sub'', ''doc.pdf'']" and pr = True,
      unfolded eval_encode_abcd eval_outpath_bin eval_components_bin eval_join_bin]
  note t1 = t [THEN conjunct1]
  note t2 = t [THEN conjunct2, THEN conjunct1, THEN mp,
      OF conjI [OF eval_no_payload_before conjI [OF eval_open_spaced eval_close_plain]], THEN conjunct2]
  note t3 = t [THEN conjunct2, THEN conjunct2, THEN conjunct1]
  note t4 = t [THEN conjunct2, THEN conjunct2, THEN conjunct2]
  have a: "b64decode ''QUJDRA=='' = Inr ''ABCD''"
    by (rule t1)
  have b: "decode_block 0 (''/d/a.xml'',
         ''<NomeAttachment>fresh</NomeAttachment>< Attachment >QUJDRA==</Attachment>'')
       = Yielded (''/d'', ''fresh.formatoSconosciuto'', ''ABCD'')"
    using t2 by (simp add: eval_split_a_xml eval_name_fresh eval_ext_abcd)
  have c: "read_bytes ?w ''/d/fresh.formatoSconosciuto'' = Inr ''ABCD''"
    using t3 wr by simp
  have d: "read_bytes (write_attachment (''/d'', ''fresh.formatoSconosciuto'', ''ABCD'') None ''max'' disk)
         ''/d/fresh.formatoSconosciuto'' = Inr ''ABCD''"
    using t4 eval_names_bin eval_parent_bin p g by (simp add: eval_join_bin)
  show ?thesis
    by (intro conjI eval_encode_abcd a eval_no_payload_before eval_open_spaced eval_close_plain b
        eval_names_bin eval_parent_bin p g wr c d)
qed

end
